theory Spec2Isabelle
  imports Main "HOL-Library.Sublist" "HOL-Library.Char_ord" "HOL-Library.List_Lexorder"
begin

section \<open>Static asset specs and candidate selection\<close>

text \<open>
  \<^verbatim>\<open>appconfig.Static\<close>: the four string fields of a static asset definition.
  Go strings are byte sequences; \<^typ>\<open>string\<close> is a list of bytes.
\<close>

record Static =
  GuestPath :: string
  UrlPrefix :: string
  TigrisBucket :: string
  IndexDocument :: string

text \<open>
  \<^verbatim>\<open>staticIsCandidateForTigrisPush\<close> (machines_tigrisstatics.go, lines 267-285):
  three guards in the order of the source, each returning false, then true.
\<close>

definition staticIsCandidateForTigrisPush :: "Static \<Rightarrow> bool" where
  "staticIsCandidateForTigrisPush static =
     (if TigrisBucket static \<noteq> '''' then False
      else if length (GuestPath static) = 0 then False
      else if GuestPath static ! 0 = CHR ''/'' then False
      else True)"

text \<open>
  The specification's words, for comparison with the code: a guest path is absolute when
  it begins with a slash; a relative path is a path (at least one byte) that is not
  absolute, which is also where the source says "now we know that we have a relative
  path" (line 282).
\<close>

definition spec_absolute_path :: "string \<Rightarrow> bool" where
  "spec_absolute_path p = (case p of [] \<Rightarrow> False | c # _ \<Rightarrow> c = CHR ''/'')"

definition spec_relative_path :: "string \<Rightarrow> bool" where
  "spec_relative_path p = (p \<noteq> [] \<and> \<not> spec_absolute_path p)"

section \<open>Errors and outcomes of a Go call\<close>

text \<open>
  A Go \<^verbatim>\<open>error\<close> value. \<^verbatim>\<open>mach.InvalidConfigErr\<close> is the one concrete error type the
  code asserts on; its \<^verbatim>\<open>AttemptFix\<close> method either produces a fix (the flag is true) or
  an error of its own. Every other error is an \<open>Error\<close> with its message.
\<close>

datatype go_error =
    Error string
  | InvalidConfigErr string bool

text \<open>
  How a call ends: it returns a value, it panics, or the process exits
  (\<^verbatim>\<open>os.Exit\<close>). Deferred functions run when the function returns or panics; they do
  not run when the process exits.
\<close>

datatype 'a outcome =
    Returns 'a
  | Panics string
  | Exits int

definition osExit :: "int \<Rightarrow> unit outcome" where
  "osExit code = Exits code"

definition deferred :: "('w \<Rightarrow> 'w) \<Rightarrow> 'a outcome \<times> 'w \<Rightarrow> 'a outcome \<times> 'w" where
  "deferred f r =
     (case r of
        (Exits code, w) \<Rightarrow> (Exits code, w)
      | (Returns v, w) \<Rightarrow> (Returns v, f w)
      | (Panics msg, w) \<Rightarrow> (Panics msg, f w))"

section \<open>The scale coordinator\<close>

record MachineGuest =
  CPUKind :: string
  CPUs :: int
  MemoryMB :: int

record Machine =
  Machine_ID :: string
  Machine_Name :: string
  Machine_Region :: string
  Machine_ProcessGroup :: string
  Machine_Guest :: MachineGuest

record LaunchMachineInput =
  Input_Name :: string
  Input_Region :: string
  Input_Guest :: MachineGuest

record VMSize =
  VMSize_Name :: string
  VMSize_MemoryMB :: int
  VMSize_CPUCores :: int

record RemoteAppConfig =
  Processes :: "string list"
  DefaultProcessName :: string

text \<open>
  The collaborators of \<^verbatim>\<open>v2ScaleVM\<close> that are not part of the file: what each of them
  answers is a parameter of the model.
  \<^item> \<open>newClient\<close>: the error of \<^verbatim>\<open>flapsutil.NewClientWithOptions\<close>, if any;
  \<^item> \<open>machinePresets\<close>: the size table behind \<^verbatim>\<open>MachineGuest.SetSize\<close>;
  \<^item> \<open>fromRemoteApp\<close>: the answer of \<^verbatim>\<open>appconfig.FromRemoteApp\<close>;
  \<^item> \<open>listActive\<close>: the answer of \<^verbatim>\<open>mach.ListActive\<close>;
  \<^item> \<open>leaseErr\<close>: the error, if any, of acquiring the lease of one machine;
  \<^item> \<open>toSize\<close>: \<^verbatim>\<open>MachineGuest.ToSize\<close>.
\<close>

record scale_env =
  newClient :: "go_error option"
  machinePresets :: "string \<Rightarrow> MachineGuest option"
  fromRemoteApp :: "go_error + RemoteAppConfig"
  listActive :: "go_error + Machine list"
  leaseErr :: "Machine \<Rightarrow> go_error option"
  toSize :: "MachineGuest \<Rightarrow> string"

text \<open>
  The remote state the coordinator acts on: the machines whose lease this process holds,
  the answers the machines API will give to the successive \<^verbatim>\<open>mach.Update\<close> calls
  (\<open>None\<close> is success; an exhausted list answers success), and the update requests
  issued so far. Standard output is not modelled: the \<^verbatim>\<open>fmt.Println\<close> calls are omitted.
\<close>

record scale_world =
  heldLeases :: "string list"
  updateResults :: "go_error option list"
  updateCalls :: "(string \<times> LaunchMachineInput) list"

text \<open>
  \<^verbatim>\<open>MachineGuest.SetSize\<close>: an unknown size name is an error and leaves the guest as it is;
  a known one overwrites the guest with the preset.
\<close>

definition SetSize :: "scale_env \<Rightarrow> string \<Rightarrow> MachineGuest \<Rightarrow> go_error option \<times> MachineGuest" where
  "SetSize env sizeName g =
     (case machinePresets env sizeName of
        None \<Rightarrow> (Some (Error ''invalid machine size requested''), g)
      | Some preset \<Rightarrow> (None, preset))"

text \<open>
  Modelled from the spec: \<^verbatim>\<open>mach.AcquireLeases\<close> is not among the source files. Following
  "acquire an exclusive lease" for each machine and "release the lease", it acquires the
  leases in order, stops at the first machine whose lease cannot be acquired, and returns
  the machines leased so far, the error, and (as \<open>releaseFunc\<close>) a function that releases
  exactly the leases it acquired.
\<close>

fun AcquireLeases ::
  "scale_env \<Rightarrow> Machine list \<Rightarrow> scale_world \<Rightarrow> (Machine list \<times> go_error option) \<times> scale_world" where
  "AcquireLeases env [] w = (([], None), w)"
| "AcquireLeases env (m # ms) w =
     (case leaseErr env m of
        Some e \<Rightarrow> (([], Some e), w)
      | None \<Rightarrow>
          (case AcquireLeases env ms (w\<lparr>heldLeases := heldLeases w @ [Machine_ID m]\<rparr>) of
             ((held, err), w') \<Rightarrow> ((m # held, err), w')))"

definition releaseFunc :: "Machine list \<Rightarrow> scale_world \<Rightarrow> scale_world" where
  "releaseFunc held w =
     w\<lparr>heldLeases := filter (\<lambda>i. i \<notin> set (map Machine_ID held)) (heldLeases w)\<rparr>"

text \<open>
  \<^verbatim>\<open>mach.Update\<close>: records the request and answers with the next scheduled result.
\<close>

definition Update :: "Machine \<Rightarrow> LaunchMachineInput \<Rightarrow> scale_world \<Rightarrow> go_error option \<times> scale_world" where
  "Update m input w =
     (let w' = w\<lparr>updateCalls := updateCalls w @ [(Machine_ID m, input)]\<rparr> in
      case updateResults w of
        [] \<Rightarrow> (None, w')
      | r # rs \<Rightarrow> (r, w'\<lparr>updateResults := rs\<rparr>))"

text \<open>
  \<^verbatim>\<open>err.(mach.InvalidConfigErr).AttemptFix()\<close>: the type assertion has no \<^verbatim>\<open>ok\<close> result,
  so it panics on an error of any other type. The result is the \<^verbatim>\<open>fix_err\<close> of the source;
  the fixed guest is discarded there (\<^verbatim>\<open>_\<close>).
\<close>

definition assertInvalidConfigErr_AttemptFix :: "go_error \<Rightarrow> go_error option outcome" where
  "assertInvalidConfigErr_AttemptFix err =
     (case err of
        InvalidConfigErr reason fixable \<Rightarrow>
          Returns (if fixable then None else Some (Error ''unable to fix config''))
      | Error msg \<Rightarrow> Panics ''interface conversion: error is not machine.InvalidConfigErr'')"

text \<open>
  Lines 79-92 of \<^verbatim>\<open>v2ScaleVM\<close>, the update of one machine. The result \<open>Returns None\<close> is
  falling through to the next iteration; \<open>Returns (Some e)\<close> is \<^verbatim>\<open>return nil, e\<close>.
\<close>

definition updateMachine ::
  "Machine \<Rightarrow> LaunchMachineInput \<Rightarrow> scale_world \<Rightarrow> go_error option outcome \<times> scale_world" where
  "updateMachine m input w =
     (case Update m input w of
        (None, w1) \<Rightarrow> (Returns None, w1)
      | (Some err, w1) \<Rightarrow>
          (case assertInvalidConfigErr_AttemptFix err of
             Panics msg \<Rightarrow> (Panics msg, w1)
           | Exits code \<Rightarrow> (Exits code, w1)
           | Returns (Some fix_err) \<Rightarrow> (Returns (Some err), w1)
           | Returns None \<Rightarrow>
               (case Update m input w1 of
                  (Some second_err, w2) \<Rightarrow> (Returns (Some second_err), w2)
                | (None, w2) \<Rightarrow> (Returns (Some err), w2))))"

text \<open>
  The body of the loop over the machines (lines 57-94). The machines are pointers: the
  size and memory changes, and \<^verbatim>\<open>input.Config.Guest.CPUs = 2\<close> through the shared
  \<^verbatim>\<open>Config\<close> pointer, change the machine in the list, which is returned with the outcome.
  \<^verbatim>\<open>os.Exit(1)\<close> on line 76 stands before the update.
\<close>

definition scaleMachine ::
  "scale_env \<Rightarrow> string \<Rightarrow> int \<Rightarrow> Machine \<Rightarrow> scale_world \<Rightarrow>
     (go_error option outcome \<times> Machine) \<times> scale_world" where
  "scaleMachine env sizeName memoryMB machine w =
     (let g1 = (if sizeName \<noteq> [] then snd (SetSize env sizeName (Machine_Guest machine))
                else Machine_Guest machine);
          g2 = (if memoryMB > 0 then g1\<lparr>MemoryMB := memoryMB\<rparr> else g1);
          g3 = g2\<lparr>CPUs := 2\<rparr>;
          machine' = machine\<lparr>Machine_Guest := g3\<rparr>;
          input = \<lparr>Input_Name = Machine_Name machine', Input_Region = Machine_Region machine',
                   Input_Guest = g3\<rparr>
      in case osExit 1 of
           Exits code \<Rightarrow> ((Exits code, machine'), w)
         | Panics msg \<Rightarrow> ((Panics msg, machine'), w)
         | Returns u \<Rightarrow>
             (case updateMachine machine' input w of (out, w') \<Rightarrow> ((out, machine'), w')))"

text \<open>
  The loop: \<open>handled\<close> holds the machines already handled, in order. It ends with the whole
  list when no iteration returned, panicked or exited.
\<close>

fun scaleLoop ::
  "scale_env \<Rightarrow> string \<Rightarrow> int \<Rightarrow> Machine list \<Rightarrow> Machine list \<Rightarrow> scale_world \<Rightarrow>
     (go_error + Machine list) outcome \<times> scale_world" where
  "scaleLoop env sizeName memoryMB handled [] w = (Returns (Inr handled), w)"
| "scaleLoop env sizeName memoryMB handled (machine # rest) w =
     (case scaleMachine env sizeName memoryMB machine w of
        ((Exits code, machine'), w') \<Rightarrow> (Exits code, w')
      | ((Panics msg, machine'), w') \<Rightarrow> (Panics msg, w')
      | ((Returns (Some err), machine'), w') \<Rightarrow> (Returns (Inl err), w')
      | ((Returns None, machine'), w') \<Rightarrow>
          scaleLoop env sizeName memoryMB (handled @ [machine']) rest w')"

text \<open>\<^verbatim>\<open>listMachinesWithGroup\<close> (lines 106-119).\<close>

definition listMachinesWithGroup :: "scale_env \<Rightarrow> string \<Rightarrow> go_error + Machine list" where
  "listMachinesWithGroup env groupName =
     (case listActive env of
        Inl err \<Rightarrow> Inl err
      | Inr machines \<Rightarrow> Inr (filter (\<lambda>m. Machine_ProcessGroup m = groupName) machines))"

text \<open>
  Lines 51-104 of \<^verbatim>\<open>v2ScaleVM\<close>: everything from the lease acquisition on.
  \<^verbatim>\<open>defer releaseFunc()\<close> is registered on line 52, before the error of
  \<^verbatim>\<open>AcquireLeases\<close> is looked at, so it covers all of it. The last statement reads
  \<^verbatim>\<open>machines[0]\<close>; the model panics, as the index expression would, on an empty list.
\<close>

definition scaleUnderLeases ::
  "scale_env \<Rightarrow> string \<Rightarrow> int \<Rightarrow> Machine list \<Rightarrow> scale_world \<Rightarrow>
     (go_error + VMSize) outcome \<times> scale_world" where
  "scaleUnderLeases env sizeName memoryMB machines w =
     (case AcquireLeases env machines w of
        ((machines', err), w1) \<Rightarrow>
          deferred (releaseFunc machines')
            (case err of
               Some e \<Rightarrow> (Returns (Inl e), w1)
             | None \<Rightarrow>
                 (case scaleLoop env sizeName memoryMB [] machines' w1 of
                    (Exits code, w2) \<Rightarrow> (Exits code, w2)
                  | (Panics msg, w2) \<Rightarrow> (Panics msg, w2)
                  | (Returns (Inl e), w2) \<Rightarrow> (Returns (Inl e), w2)
                  | (Returns (Inr ms), w2) \<Rightarrow>
                      (case ms of
                         [] \<Rightarrow> (Panics ''index out of range [0] with length 0'', w2)
                       | m0 # _ \<Rightarrow>
                           (Returns (Inr \<lparr>VMSize_Name = toSize env (Machine_Guest m0),
                                          VMSize_MemoryMB = MemoryMB (Machine_Guest m0),
                                          VMSize_CPUCores = CPUs (Machine_Guest m0)\<rparr>), w2)))))"

text \<open>
  Lines 27-41 of \<^verbatim>\<open>v2ScaleVM\<close>: the size name is validated on a fresh guest (an
  empty name is let through), and an empty group is replaced by the remote
  configuration's default process name, unless it has several process groups.
\<close>

definition validateSizeName :: "scale_env \<Rightarrow> string \<Rightarrow> go_error option" where
  "validateSizeName env sizeName =
     (case fst (SetSize env sizeName \<lparr>CPUKind = [], CPUs = 0, MemoryMB = 0\<rparr>) of
        Some err \<Rightarrow> (if sizeName \<noteq> [] then Some err else None)
      | None \<Rightarrow> None)"

definition resolveGroup :: "scale_env \<Rightarrow> string \<Rightarrow> go_error + string" where
  "resolveGroup env groupName =
     (if groupName = [] then
        (case fromRemoteApp env of
           Inl err \<Rightarrow> Inl err
         | Inr appConfig \<Rightarrow>
             if length (Processes appConfig) > 1
             then Inl (Error ''scaling an app with multiple process groups requires specifying a group'')
             else Inr (DefaultProcessName appConfig))
      else Inr groupName)"

text \<open>\<^verbatim>\<open>v2ScaleVM\<close> (lines 16-104).\<close>

definition v2ScaleVM ::
  "scale_env \<Rightarrow> string \<Rightarrow> string \<Rightarrow> string \<Rightarrow> int \<Rightarrow> scale_world \<Rightarrow>
     (go_error + VMSize) outcome \<times> scale_world" where
  "v2ScaleVM env appName groupName sizeName memoryMB w =
     (case newClient env of
        Some err \<Rightarrow> (Returns (Inl err), w)
      | None \<Rightarrow>
          (case validateSizeName env sizeName of
             Some err \<Rightarrow> (Returns (Inl err), w)
           | None \<Rightarrow>
               (case resolveGroup env groupName of
                  Inl err \<Rightarrow> (Returns (Inl err), w)
                | Inr group' \<Rightarrow>
                    (case listMachinesWithGroup env group' of
                       Inl err \<Rightarrow> (Returns (Inl err), w)
                     | Inr machines \<Rightarrow>
                         if length machines = 0
                         then (Returns (Inl (Error ''No active machines in process group'')), w)
                         else scaleUnderLeases env sizeName memoryMB machines w))))"

text \<open>
  A concrete fleet for the evaluations below: one machine in process group "app", every
  collaborator answering without error, and a schedule of answers for the update calls.
\<close>

definition example_machine :: Machine where
  "example_machine =
     \<lparr>Machine_ID = ''m1'', Machine_Name = ''web'', Machine_Region = ''ams'',
      Machine_ProcessGroup = ''app'',
      Machine_Guest = \<lparr>CPUKind = ''shared'', CPUs = 1, MemoryMB = 256\<rparr>\<rparr>"

definition example_scale_env :: scale_env where
  "example_scale_env =
     \<lparr>newClient = None,
      machinePresets = (\<lambda>n. if n = ''shared-cpu-2x''
                             then Some \<lparr>CPUKind = ''shared'', CPUs = 2, MemoryMB = 512\<rparr>
                             else None),
      fromRemoteApp = Inr \<lparr>Processes = [''app''], DefaultProcessName = ''app''\<rparr>,
      listActive = Inr [example_machine],
      leaseErr = (\<lambda>m. None),
      toSize = (\<lambda>g. ''shared-cpu-2x'')\<rparr>"

definition example_scale_world :: "go_error option list \<Rightarrow> scale_world" where
  "example_scale_world results =
     \<lparr>heldLeases = [], updateResults = results, updateCalls = []\<rparr>"

definition example_input :: LaunchMachineInput where
  "example_input =
     \<lparr>Input_Name = ''web'', Input_Region = ''ams'',
      Input_Guest = \<lparr>CPUKind = ''shared'', CPUs = 2, MemoryMB = 512\<rparr>\<rparr>"

section \<open>Bucket provisioning\<close>

text \<open>
  A Go \<^verbatim>\<open>interface{}\<close> holding a decoded JSON value: \<^verbatim>\<open>nil\<close>, a string, a number, a
  boolean, a slice, or a \<^verbatim>\<open>map[string]interface{}\<close> (its entries as an association list,
  read with \<^const>\<open>map_of\<close>).
\<close>

datatype go_value =
    VNil
  | VString string
  | VNumber int
  | VBool bool
  | VList "go_value list"
  | VMap "(string \<times> go_value) list"

text \<open>\<^verbatim>\<open>m[key]\<close> on a Go map: the zero value, \<^verbatim>\<open>nil\<close>, for a missing key.\<close>

definition mapIndex :: "(string \<times> go_value) list \<Rightarrow> string \<Rightarrow> go_value" where
  "mapIndex m key = (case map_of m key of None \<Rightarrow> VNil | Some v \<Rightarrow> v)"

definition staticsMetaKeyAppId :: string where
  "staticsMetaKeyAppId = ''fly-statics-app-id''"

definition staticsMetaTokenizedAuth :: string where
  "staticsMetaTokenizedAuth = ''fly-statics-tokenized-auth''"

definition tigrisHostname :: string where
  "tigrisHostname = ''fly.storage.tigris.dev''"

definition tokenizerSealKey :: string where
  "tokenizerSealKey = ''3afdb665d93f741adc98a6cfecb36f1e02403a095e8efa921fd2321857011f42''"

text \<open>\<^verbatim>\<open>err.Error()\<close> and \<^verbatim>\<open>strings.Contains\<close>.\<close>

fun errorMessage :: "go_error \<Rightarrow> string" where
  "errorMessage (Error msg) = msg"
| "errorMessage (InvalidConfigErr reason fixable) = reason"

fun Contains :: "string \<Rightarrow> string \<Rightarrow> bool" where
  "Contains [] substr = (substr = [])"
| "Contains (c # s) substr = (prefix substr (c # s) \<or> Contains s substr)"

text \<open>
  \<^verbatim>\<open>strconv.ParseUint(s, 10, 64)\<close>: a non-empty string of decimal digits, no sign, whose
  value fits 64 bits.
\<close>

definition isDigit :: "char \<Rightarrow> bool" where
  "isDigit c = (c \<in> set ''0123456789'')"

definition digitVal :: "char \<Rightarrow> nat" where
  "digitVal c = of_char c - 48"

fun digitsVal :: "nat \<Rightarrow> string \<Rightarrow> nat" where
  "digitsVal acc [] = acc"
| "digitsVal acc (c # cs) = digitsVal (acc * 10 + digitVal c) cs"

definition ParseUint :: "string \<Rightarrow> go_error + nat" where
  "ParseUint s =
     (if s = [] \<or> \<not> list_all isDigit s then Inl (Error ''invalid syntax'')
      else if digitsVal 0 s \<ge> 2 ^ 64 then Inl (Error ''value out of range'')
      else Inr (digitsVal 0 s))"

record Organization =
  Org_Slug :: string
  Org_InternalNumericID :: string

record AddOn =
  AddOn_Name :: string
  AddOn_Metadata :: go_value

record Extension =
  Ext_Environment :: go_value

record AddOnFull =
  AddOnFull_Id :: string
  AddOnFull_PlanId :: string
  AddOnFull_Options :: go_value

text \<open>
  The \<^verbatim>\<open>tokenizer.Secret\<close> that is sealed: the macaroon access (action, organisation,
  application), the signing keys, and the hosts the request validator allows.
\<close>

record Secret =
  Secret_Action :: string
  Secret_OrgID :: nat
  Secret_AppID :: nat
  Secret_AccessKey :: string
  Secret_SecretKey :: string
  Secret_AllowHosts :: "string list"

text \<open>
  The fields of \<^verbatim>\<open>machineDeployment\<close> the statics code reads and writes
  (\<^verbatim>\<open>md.app\<close>, \<^verbatim>\<open>md.appConfig\<close>, \<^verbatim>\<open>md.releaseVersion\<close>, \<^verbatim>\<open>md.tigrisStatics\<close>).
\<close>

record machineDeployment =
  app_ID :: string
  app_Name :: string
  app_Organization_Slug :: string
  appConfig_AppName :: string
  appConfig_PrimaryRegion :: string
  appConfig_Statics :: "Static list"
  releaseVersion :: int
  tigrisStatics_bucket :: string
  tigrisStatics_root :: string
  tigrisStatics_originalStatics :: "Static list"

text \<open>
  The control plane behind the GraphQL and extension calls. What it answers is a
  parameter of the model (the \<open>_result\<close> fields, a function of the request where the code
  repeats a call with another argument); the requests that change it are recorded in
  order: the names \<^verbatim>\<open>ProvisionExtension\<close> was asked to create, the add-ons deleted, the
  metadata written. \<open>haikunator\<close> is the random suffix \<^verbatim>\<open>haikunator.Haikunator().String()\<close>
  produces. \<^verbatim>\<open>gql.GetAddOn\<close> hands back its response together with the error, and the code
  overwrites that error unread, so only the response is modelled.
\<close>

record control_plane =
  listAddOns_result :: "go_error + AddOn list"
  organization_result :: "go_error + Organization"
  provision_result :: "string \<Rightarrow> go_error + Extension"
  haikunator :: string
  getApp_result :: "go_error + int"
  seal_result :: "Secret \<Rightarrow> go_error + string"
  getAddOn_result :: "string \<Rightarrow> AddOnFull"
  updateAddOn_result :: "go_error option"
  deleteAddOn_result :: "go_error option"
  provisioned :: "string list"
  deleted :: "string list"
  metadataWritten :: "(string \<times> (string \<times> go_value) list) list"

definition ProvisionExtension ::
  "control_plane \<Rightarrow> string \<Rightarrow> (go_error + Extension) \<times> control_plane" where
  "ProvisionExtension cp overrideName =
     (provision_result cp overrideName, cp\<lparr>provisioned := provisioned cp @ [overrideName]\<rparr>)"

definition DeleteAddOn :: "control_plane \<Rightarrow> string \<Rightarrow> go_error option \<times> control_plane" where
  "DeleteAddOn cp name = (deleteAddOn_result cp, cp\<lparr>deleted := deleted cp @ [name]\<rparr>)"

definition UpdateAddOn ::
  "control_plane \<Rightarrow> string \<Rightarrow> (string \<times> go_value) list \<Rightarrow> go_error option \<times> control_plane" where
  "UpdateAddOn cp addOnId metadata =
     (case updateAddOn_result cp of
        Some err \<Rightarrow> (Some err, cp)
      | None \<Rightarrow> (None, cp\<lparr>metadataWritten := metadataWritten cp @ [(addOnId, metadata)]\<rparr>))"

text \<open>
  Lines 86-91 of \<^verbatim>\<open>staticsEnsureBucketCreated\<close>: the search for an add-on carrying this
  application's id. \<open>Returns None\<close> is leaving the loop without a match; a match gives
  the add-on's name and the value \<^verbatim>\<open>meta[staticsMetaTokenizedAuth]\<close>, which lines 92-93
  then use. The type assertion of line 90 has no \<^verbatim>\<open>ok\<close> result and panics on metadata
  that is not a map; the comparison of an \<^verbatim>\<open>interface{}\<close> with the id string is true only
  for a string value equal to it.
\<close>

fun findStaticsAddOn :: "string \<Rightarrow> AddOn list \<Rightarrow> (string \<times> go_value) option outcome" where
  "findStaticsAddOn appID [] = Returns None"
| "findStaticsAddOn appID (extension # rest) =
     (case AddOn_Metadata extension of
        VNil \<Rightarrow> findStaticsAddOn appID rest
      | VMap meta \<Rightarrow>
          if mapIndex meta staticsMetaKeyAppId = VString appID then
            Returns (Some (AddOn_Name extension, mapIndex meta staticsMetaTokenizedAuth))
          else findStaticsAddOn appID rest
      | _ \<Rightarrow> Panics ''interface conversion: interface {} is not map[string]interface {}'')"

text \<open>
  Lines 102-136: the creation of the bucket \<^verbatim>\<open><app>-statics\<close>, with one more attempt
  under a name with a random suffix when the error message reports a name that is taken.
  The result is the final \<^verbatim>\<open>bucketName\<close> and either the error or the extension.
\<close>

definition nameTaken :: "go_error \<Rightarrow> bool" where
  "nameTaken err =
     (Contains (errorMessage err) ''already exists for app'' \<or>
      Contains (errorMessage err) ''unavailable for creation'')"

definition provisionBucket ::
  "machineDeployment \<Rightarrow> control_plane \<Rightarrow> (string \<times> (go_error + Extension)) \<times> control_plane" where
  "provisionBucket md cp =
     (let bucketName = appConfig_AppName md @ ''-statics'' in
      case ProvisionExtension cp bucketName of
        (Inr ext, cp1) \<Rightarrow> ((bucketName, Inr ext), cp1)
      | (Inl err, cp1) \<Rightarrow>
          if nameTaken err then
            (let bucketName' = bucketName @ ''-'' @ haikunator cp1 in
             case ProvisionExtension cp1 bucketName' of
               (Inr newExt, cp2) \<Rightarrow> ((bucketName', Inr newExt), cp2)
             | (Inl newErr, cp2) \<Rightarrow> ((bucketName', Inl err), cp2))
          else ((bucketName, Inl err), cp1))"

text \<open>
  \<^verbatim>\<open>staticsTokenizeTigrisSecrets\<close> (lines 172-209). The two key lookups are type assertions
  without \<^verbatim>\<open>ok\<close> result. \<^verbatim>\<open>uint64(app.InternalNumericID)\<close> wraps modulo \<open>2^64\<close>.
\<close>

definition staticsTokenizeTigrisSecrets ::
  "machineDeployment \<Rightarrow> control_plane \<Rightarrow> Organization \<Rightarrow> (string \<times> go_value) list \<Rightarrow>
     (go_error + string) outcome" where
  "staticsTokenizeTigrisSecrets md cp org secrets =
     (case ParseUint (Org_InternalNumericID org) of
        Inl err \<Rightarrow> Returns (Inl (Error (''failed to decode org ID for '' @ Org_Slug org)))
      | Inr orgId \<Rightarrow>
          (case getApp_result cp of
             Inl err \<Rightarrow> Returns (Inl err)
           | Inr internalNumericID \<Rightarrow>
               (case mapIndex secrets ''AWS_ACCESS_KEY_ID'' of
                  VString accessKey \<Rightarrow>
                    (case mapIndex secrets ''AWS_SECRET_ACCESS_KEY'' of
                       VString secretKey \<Rightarrow>
                         Returns (seal_result cp
                           \<lparr>Secret_Action = ''write'', Secret_OrgID = orgId,
                            Secret_AppID = nat (internalNumericID mod 2 ^ 64),
                            Secret_AccessKey = accessKey, Secret_SecretKey = secretKey,
                            Secret_AllowHosts =
                              [tigrisStatics_bucket md @ ''.'' @ tigrisHostname]\<rparr>)
                     | _ \<Rightarrow> Panics ''interface conversion: interface {} is not string'')
                | _ \<Rightarrow> Panics ''interface conversion: interface {} is not string'')))"

text \<open>
  Lines 138-169: with the bucket created, record its name, seal the credential and write
  it with the application id onto the add-on. The deferred function deletes the add-on
  when the named result \<^verbatim>\<open>retErr\<close> is set; a failure of that deletion is only printed.
  During a panic \<^verbatim>\<open>retErr\<close> still holds \<^verbatim>\<open>nil\<close>, so nothing is deleted.
\<close>

definition configureBucket ::
  "machineDeployment \<Rightarrow> control_plane \<Rightarrow> Organization \<Rightarrow> string \<Rightarrow> Extension \<Rightarrow>
     (string \<times> go_error option) outcome \<times> machineDeployment \<times> control_plane" where
  "configureBucket md cp org bucketName ext =
     (let md1 = md\<lparr>tigrisStatics_bucket := bucketName\<rparr>;
          cleanup = (\<lambda>r. case r of
                       (Returns (tok, Some retErr), md', cp') \<Rightarrow>
                         (Returns (tok, Some retErr), md', snd (DeleteAddOn cp' bucketName))
                     | other \<Rightarrow> other)
      in cleanup
        (case Ext_Environment ext of
           VMap secrets \<Rightarrow>
             (case staticsTokenizeTigrisSecrets md1 cp org secrets of
                Panics msg \<Rightarrow> (Panics msg, md1, cp)
              | Exits code \<Rightarrow> (Exits code, md1, cp)
              | Returns (Inl err) \<Rightarrow> (Returns ([], Some err), md1, cp)
              | Returns (Inr tokenizedKey) \<Rightarrow>
                  (let extFull = getAddOn_result cp bucketName in
                   case UpdateAddOn cp (AddOnFull_Id extFull)
                          [(staticsMetaKeyAppId, VString (app_ID md1)),
                           (staticsMetaTokenizedAuth, VString tokenizedKey)] of
                     (Some err, cp1) \<Rightarrow> (Returns ([], Some err), md1, cp1)
                   | (None, cp1) \<Rightarrow> (Returns (tokenizedKey, None), md1, cp1)))
         | _ \<Rightarrow> (Panics ''interface conversion: interface {} is not map[string]interface {}'',
                 md1, cp)))"

text \<open>
  \<^verbatim>\<open>staticsEnsureBucketCreated\<close> (lines 76-170). On a match, line 92 records the add-on's
  name as the bucket before line 93 asserts that the stored credential is a string, so a
  panic of that assertion leaves the name recorded.
\<close>

definition staticsEnsureBucketCreated ::
  "machineDeployment \<Rightarrow> control_plane \<Rightarrow>
     (string \<times> go_error option) outcome \<times> machineDeployment \<times> control_plane" where
  "staticsEnsureBucketCreated md cp =
     (case listAddOns_result cp of
        Inl err \<Rightarrow> (Returns ([], Some err), md, cp)
      | Inr nodes \<Rightarrow>
          (case findStaticsAddOn (app_ID md) nodes of
             Panics msg \<Rightarrow> (Panics msg, md, cp)
           | Exits code \<Rightarrow> (Exits code, md, cp)
           | Returns (Some (name, auth)) \<Rightarrow>
               (let md1 = md\<lparr>tigrisStatics_bucket := name\<rparr>
                in case auth of
                     VString tokenizedAuth \<Rightarrow> (Returns (tokenizedAuth, None), md1, cp)
                   | _ \<Rightarrow> (Panics ''interface conversion: interface {} is not string'',
                           md1, cp))
           | Returns None \<Rightarrow>
               (case organization_result cp of
                  Inl err \<Rightarrow> (Returns ([], Some err), md, cp)
                | Inr org \<Rightarrow>
                    (case provisionBucket md cp of
                       ((bucketName, Inl err), cp1) \<Rightarrow> (Returns ([], Some err), md, cp1)
                     | ((bucketName, Inr ext), cp1) \<Rightarrow>
                         configureBucket md cp1 org bucketName ext))))"

text \<open>
  A concrete deployment and control plane for the evaluations below: application
  "my-app" with id "app-1", the given add-ons already present, and the given answers of
  \<^verbatim>\<open>ProvisionExtension\<close>; every other call succeeds.
\<close>

definition example_deployment :: machineDeployment where
  "example_deployment =
     \<lparr>app_ID = ''app-1'', app_Name = ''my-app'', app_Organization_Slug = ''personal'',
      appConfig_AppName = ''my-app'', appConfig_PrimaryRegion = ''ams'',
      appConfig_Statics = [], releaseVersion = 7, tigrisStatics_bucket = [],
      tigrisStatics_root = [], tigrisStatics_originalStatics = []\<rparr>"

definition example_control_plane ::
  "AddOn list \<Rightarrow> (string \<Rightarrow> go_error + Extension) \<Rightarrow> control_plane" where
  "example_control_plane nodes provision =
     \<lparr>listAddOns_result = Inr nodes,
      organization_result = Inr \<lparr>Org_Slug = ''personal'', Org_InternalNumericID = ''42''\<rparr>,
      provision_result = provision,
      haikunator = ''misty-sun-1234'',
      getApp_result = Inr 9,
      seal_result = (\<lambda>secret. Inr ''sealed''),
      getAddOn_result =
        (\<lambda>name. \<lparr>AddOnFull_Id = ''addon-1'', AddOnFull_PlanId = ''plan-1'',
                  AddOnFull_Options = VNil\<rparr>),
      updateAddOn_result = None,
      deleteAddOn_result = None,
      provisioned = [], deleted = [], metadataWritten = []\<rparr>"

definition example_extension :: Extension where
  "example_extension =
     \<lparr>Ext_Environment = VMap [(''AWS_ACCESS_KEY_ID'', VString ''key''),
                              (''AWS_SECRET_ACCESS_KEY'', VString ''secret'')]\<rparr>"

definition provision_name_taken :: "string \<Rightarrow> go_error + Extension" where
  "provision_name_taken name =
     (if name = ''my-app-statics''
      then Inl (Error ''Name my-app-statics already exists for app'')
      else Inl (Error ''internal server error''))"

definition provision_name_taken_once :: "string \<Rightarrow> go_error + Extension" where
  "provision_name_taken_once name =
     (if name = ''my-app-statics''
      then Inl (Error ''Name my-app-statics already exists for app'')
      else Inr example_extension)"

definition provision_denied :: "string \<Rightarrow> go_error + Extension" where
  "provision_denied name = Inl (Error ''not authorized'')"

text \<open>
  The add-ons the search passes over: metadata that is \<^verbatim>\<open>nil\<close>, or a map whose
  application-id entry is missing, of another type, or another id.
\<close>

definition passedOver :: "string \<Rightarrow> AddOn \<Rightarrow> bool" where
  "passedOver appID a =
     (case AddOn_Metadata a of
        VNil \<Rightarrow> True
      | VMap meta \<Rightarrow> mapIndex meta staticsMetaKeyAppId \<noteq> VString appID
      | _ \<Rightarrow> False)"

section \<open>Strings, numbers and paths of the Go library\<close>

text \<open>\<^verbatim>\<open>strings.HasSuffix\<close>, and \<^verbatim>\<open>strings.ReplaceAll\<close> and \<^verbatim>\<open>strings.Split\<close> for a
  one-byte pattern, which is all the code uses.\<close>

definition HasSuffix :: "string \<Rightarrow> string \<Rightarrow> bool" where
  "HasSuffix s suf = suffix suf s"

definition ReplaceAll :: "string \<Rightarrow> char \<Rightarrow> char \<Rightarrow> string" where
  "ReplaceAll s old new = map (\<lambda>c. if c = old then new else c) s"

definition backslash :: char where
  "backslash = CHR 0x5C"

fun Split :: "string \<Rightarrow> char \<Rightarrow> string list" where
  "Split [] sep = [[]]"
| "Split (c # cs) sep =
     (if c = sep then [] # Split cs sep
      else (case Split cs sep of
              [] \<Rightarrow> [[c]]
            | part # parts \<Rightarrow> (c # part) # parts))"

text \<open>
  \<^verbatim>\<open>fmt.Sprintf("%d", v)\<close> and \<^verbatim>\<open>strconv.Atoi\<close> on a platform whose \<^verbatim>\<open>int\<close> has 64 bits:
  an optional sign, then at least one decimal digit, and a value in the range of
  \<^verbatim>\<open>int\<close>.
\<close>

fun digits :: "nat \<Rightarrow> string" where
  "digits n =
     (if n < 10 then [''0123456789'' ! n]
      else digits (n div 10) @ [''0123456789'' ! (n mod 10)])"

declare digits.simps [simp del]

definition Itoa :: "int \<Rightarrow> string" where
  "Itoa v = (if v < 0 then CHR ''-'' # digits (nat (- v)) else digits (nat v))"

definition Atoi :: "string \<Rightarrow> go_error + int" where
  "Atoi s =
     (let neg = (s \<noteq> [] \<and> hd s = CHR ''-'');
          ds = (if s \<noteq> [] \<and> (hd s = CHR ''-'' \<or> hd s = CHR ''+'') then tl s else s)
      in if ds = [] \<or> \<not> list_all isDigit ds then Inl (Error ''invalid syntax'')
         else
           (let v = (if neg then - int (digitsVal 0 ds) else int (digitsVal 0 ds))
            in if v < - (2 ^ 63) \<or> 2 ^ 63 - 1 < v then Inl (Error ''value out of range'')
               else Inr v))"

text \<open>
  \<^verbatim>\<open>path.Clean\<close> and \<^verbatim>\<open>path.Join\<close> of two elements. \<open>cleanElems\<close> walks the elements
  between slashes: empty and "." elements go, ".." removes the element before it, stays
  at the front of a relative path, and goes at the front of a rooted one.
\<close>

fun cleanElems :: "bool \<Rightarrow> string list \<Rightarrow> string list \<Rightarrow> string list" where
  "cleanElems rooted out [] = rev out"
| "cleanElems rooted out (e # es) =
     (if e = [] \<or> e = ''.'' then cleanElems rooted out es
      else if e = ''..'' then
        (case out of
           [] \<Rightarrow> if rooted then cleanElems rooted [] es else cleanElems rooted [''..''] es
         | lastElem # below \<Rightarrow>
             if lastElem = ''..'' then cleanElems rooted (''..'' # out) es
             else cleanElems rooted below es)
      else cleanElems rooted (e # out) es)"

fun joinSlash :: "string list \<Rightarrow> string" where
  "joinSlash [] = []"
| "joinSlash [e] = e"
| "joinSlash (e # es) = e @ CHR ''/'' # joinSlash es"

definition Clean :: "string \<Rightarrow> string" where
  "Clean p =
     (if p = [] then ''.''
      else
        (let rooted = (hd p = CHR ''/'');
             body = joinSlash (cleanElems rooted [] (Split p (CHR ''/'')))
         in if rooted then CHR ''/'' # body
            else if body = [] then ''.'' else body))"

definition Join :: "string \<Rightarrow> string \<Rightarrow> string" where
  "Join a b =
     (if a = [] \<and> b = [] then []
      else if a = [] then Clean b
      else if b = [] then Clean a
      else Clean (a @ CHR ''/'' # b))"

text \<open>\<^verbatim>\<open>filepath.Ext\<close>: the suffix of the last path element from its last dot on.\<close>

definition isPathSeparator :: "string \<Rightarrow> char \<Rightarrow> bool" where
  "isPathSeparator goos c = (c = CHR ''/'' \<or> (goos = ''windows'' \<and> c = backslash))"

definition Ext :: "string \<Rightarrow> string \<Rightarrow> string" where
  "Ext goos p =
     (let base = rev (takeWhile (\<lambda>c. \<not> isPathSeparator goos c) (rev p))
      in if CHR ''.'' \<in> set base
         then CHR ''.'' # rev (takeWhile (\<lambda>c. c \<noteq> CHR ''.'') (rev base))
         else [])"

text \<open>\<^verbatim>\<open>lo.Uniq\<close>, \<^verbatim>\<open>lo.FilterMap\<close>, \<^verbatim>\<open>lo.Contains\<close> and \<^verbatim>\<open>lo.Chunk\<close>.\<close>

definition lo_Uniq :: "'a list \<Rightarrow> 'a list" where
  "lo_Uniq xs = foldl (\<lambda>result item. if item \<in> set result then result else result @ [item]) [] xs"

primrec lo_FilterMap :: "('a \<Rightarrow> 'b option) \<Rightarrow> 'a list \<Rightarrow> 'b list" where
  "lo_FilterMap f [] = []"
| "lo_FilterMap f (x # xs) = (case f x of None \<Rightarrow> lo_FilterMap f xs | Some y \<Rightarrow> y # lo_FilterMap f xs)"

definition lo_Contains :: "'a list \<Rightarrow> 'a \<Rightarrow> bool" where
  "lo_Contains xs x = (x \<in> set xs)"

function lo_Chunk :: "'a list \<Rightarrow> nat \<Rightarrow> 'a list list" where
  "lo_Chunk xs n = (if xs = [] \<or> n = 0 then [] else take n xs # lo_Chunk (drop n xs) n)"
  by pat_completeness auto
termination
  by (relation "measure (\<lambda>(xs, n). length xs)") auto

declare lo_Chunk.simps [simp del]

section \<open>The object store\<close>

text \<open>
  The bucket behind \<^verbatim>\<open>tigrisStaticsData\<close> (its \<^verbatim>\<open>s3\<close> client and \<^verbatim>\<open>bucket\<close> name): the
  objects it holds, by key, and the fate of the requests to come. Each request takes the
  head of \<open>failures\<close>: \<open>True\<close> makes it fail without effect; an exhausted list lets every
  request succeed.
\<close>

record s3_object =
  Body :: string
  ContentType :: string

record s3_bucket =
  objects :: "(string \<times> s3_object) list"
  failures :: "bool list"

definition request :: "s3_bucket \<Rightarrow> bool \<times> s3_bucket" where
  "request c = (case failures c of [] \<Rightarrow> (False, c) | f # fs \<Rightarrow> (f, c\<lparr>failures := fs\<rparr>))"

text \<open>
  \<^verbatim>\<open>ListObjectsV2\<close> with a prefix and an optional delimiter. The keys that begin with the
  prefix are taken in key order (bytewise); with a delimiter, a key in which the
  delimiter occurs after the prefix is rolled up into the common prefix that ends at
  that occurrence. One response holds at most \<open>s3MaxKeys\<close> entries, keys and common
  prefixes together: the page of 1000 that the batches of line 425 and the note on line
  448 ("if the bucket contains >1k objects") refer to. The code never asks for a further
  page.
\<close>

definition s3MaxKeys :: nat where
  "s3MaxKeys = 1000"

datatype list_entry = Content string | CommonPrefix string

record ListObjectsV2Output =
  Contents :: "string list"
  CommonPrefixes :: "string list"

fun upToDelimiter :: "string \<Rightarrow> string \<Rightarrow> string option" where
  "upToDelimiter d [] = None"
| "upToDelimiter d (c # cs) =
     (if prefix d (c # cs) then Some d
      else map_option ((#) c) (upToDelimiter d cs))"

definition listEntry :: "string \<Rightarrow> string option \<Rightarrow> string \<Rightarrow> list_entry" where
  "listEntry pfx delimiter key =
     (case delimiter of
        None \<Rightarrow> Content key
      | Some d \<Rightarrow>
          if d = [] then Content key
          else (case upToDelimiter d (drop (length pfx) key) of
                  None \<Rightarrow> Content key
                | Some dir \<Rightarrow> CommonPrefix (pfx @ dir)))"

fun contentKeys :: "list_entry list \<Rightarrow> string list" where
  "contentKeys [] = []"
| "contentKeys (Content k # es) = k # contentKeys es"
| "contentKeys (CommonPrefix p # es) = contentKeys es"

fun commonPrefixes :: "list_entry list \<Rightarrow> string list" where
  "commonPrefixes [] = []"
| "commonPrefixes (Content k # es) = commonPrefixes es"
| "commonPrefixes (CommonPrefix p # es) = p # commonPrefixes es"

definition listPage :: "s3_bucket \<Rightarrow> string \<Rightarrow> string option \<Rightarrow> list_entry list" where
  "listPage c pfx delimiter =
     take s3MaxKeys
       (lo_Uniq (map (listEntry pfx delimiter) (sort (filter (prefix pfx) (map fst (objects c))))))"

definition ListObjectsV2 ::
  "s3_bucket \<Rightarrow> string \<Rightarrow> string option \<Rightarrow> (go_error + ListObjectsV2Output) \<times> s3_bucket" where
  "ListObjectsV2 c pfx delimiter =
     (case request c of
        (True, c') \<Rightarrow> (Inl (Error ''ListObjectsV2 failed''), c')
      | (False, c') \<Rightarrow>
          (Inr \<lparr>Contents = contentKeys (listPage c pfx delimiter),
                CommonPrefixes = commonPrefixes (listPage c pfx delimiter)\<rparr>, c'))"

definition DeleteObjects :: "s3_bucket \<Rightarrow> string list \<Rightarrow> go_error option \<times> s3_bucket" where
  "DeleteObjects c keys =
     (case request c of
        (True, c') \<Rightarrow> (Some (Error ''DeleteObjects failed''), c')
      | (False, c') \<Rightarrow>
          (None, c'\<lparr>objects := filter (\<lambda>obj. fst obj \<notin> set keys) (objects c')\<rparr>))"

definition PutObject ::
  "s3_bucket \<Rightarrow> string \<Rightarrow> string \<Rightarrow> string \<Rightarrow> go_error option \<times> s3_bucket" where
  "PutObject c key body contentType =
     (case request c of
        (True, c') \<Rightarrow> (Some (Error ''PutObject failed''), c')
      | (False, c') \<Rightarrow>
          (None, c'\<lparr>objects := filter (\<lambda>obj. fst obj \<noteq> key) (objects c')
                               @ [(key, \<lparr>Body = body, ContentType = contentType\<rparr>)]\<rparr>))"

section \<open>Deleting a directory of the bucket\<close>

text \<open>
  \<^verbatim>\<open>deleteDirectory\<close> (lines 400-441). \<open>directoryPrefix\<close> is lines 402-408: on Windows
  backslashes become slashes, and a slash is appended unless the name ends in one.
\<close>

definition directoryPrefix :: "string \<Rightarrow> string \<Rightarrow> string" where
  "directoryPrefix goos dir =
     (let dir1 = (if goos = ''windows'' then ReplaceAll dir backslash (CHR ''/'') else dir)
      in if \<not> HasSuffix dir1 ''/'' then dir1 @ ''/'' else dir1)"

fun deleteBatches :: "s3_bucket \<Rightarrow> string list list \<Rightarrow> go_error option \<times> s3_bucket" where
  "deleteBatches c [] = (None, c)"
| "deleteBatches c (batch # split) =
     (case DeleteObjects c batch of
        (Some err, c') \<Rightarrow> (Some err, c')
      | (None, c') \<Rightarrow> deleteBatches c' split)"

definition deleteDirectory :: "string \<Rightarrow> s3_bucket \<Rightarrow> string \<Rightarrow> go_error option \<times> s3_bucket" where
  "deleteDirectory goos c dir =
     (case ListObjectsV2 c (directoryPrefix goos dir) None of
        (Inl err, c1) \<Rightarrow> (Some err, c1)
      | (Inr listOutput, c1) \<Rightarrow> deleteBatches c1 (lo_Chunk (Contents listOutput) 1000))"

section \<open>Retention of versions\<close>

definition staticsKeepVersions :: nat where
  "staticsKeepVersions = 3"

definition versionDir :: "string \<Rightarrow> int \<Rightarrow> string" where
  "versionDir appName version = ''fly-statics/'' @ appName @ ''/'' @ Itoa version @ ''/''"

text \<open>Lines 463-474: the version number in a common prefix, if it has one.\<close>

definition parseVersion :: "string \<Rightarrow> int option" where
  "parseVersion pfx =
     (let parts = Split pfx (CHR ''/'')
      in if length parts < 3 then None
         else (case Atoi (parts ! 2) of Inl err \<Rightarrow> None | Inr num \<Rightarrow> Some num))"

text \<open>
  Lines 476-486: every version above the current one is deleted at once and noted in
  \<^verbatim>\<open>ignore\<close>; the first failing deletion ends the function.
\<close>

fun deleteTooNew ::
  "string \<Rightarrow> s3_bucket \<Rightarrow> string \<Rightarrow> int \<Rightarrow> int list \<Rightarrow> int list \<Rightarrow>
     (go_error + int list) \<times> s3_bucket" where
  "deleteTooNew goos c appName currentVer ignore [] = (Inr ignore, c)"
| "deleteTooNew goos c appName currentVer ignore (version # rest) =
     (if version > currentVer then
        (case deleteDirectory goos c (versionDir appName version) of
           (Some err, c') \<Rightarrow> (Inl err, c')
         | (None, c') \<Rightarrow> deleteTooNew goos c' appName currentVer (ignore @ [version]) rest)
      else deleteTooNew goos c appName currentVer ignore rest)"

text \<open>Lines 488-495: the versions considered for retention, ascending, each once.\<close>

definition retentionCandidates :: "int list \<Rightarrow> int list \<Rightarrow> int list" where
  "retentionCandidates ignore versions =
     lo_Uniq (sort (filter (\<lambda>version. \<not> lo_Contains ignore version) versions))"

text \<open>Lines 498-499: the versions older than the ones to keep.\<close>

definition oldVersions :: "int list \<Rightarrow> int list" where
  "oldVersions versions =
     (if length versions > staticsKeepVersions
      then take (length versions - staticsKeepVersions) versions
      else [])"

text \<open>Lines 500-506: their deletion, ended by the first failure.\<close>

fun deleteVersions ::
  "string \<Rightarrow> s3_bucket \<Rightarrow> string \<Rightarrow> int list \<Rightarrow> go_error option \<times> s3_bucket" where
  "deleteVersions goos c appName [] = (None, c)"
| "deleteVersions goos c appName (version # rest) =
     (case deleteDirectory goos c (versionDir appName version) of
        (Some err, c') \<Rightarrow> (Some err, c')
      | (None, c') \<Rightarrow> deleteVersions goos c' appName rest)"

text \<open>Lines 451-474: the version numbers listed under the application's root.\<close>

definition listVersions :: "s3_bucket \<Rightarrow> string \<Rightarrow> (go_error + int list) \<times> s3_bucket" where
  "listVersions c appName =
     (case ListObjectsV2 c (''fly-statics/'' @ appName @ ''/'') (Some ''/'') of
        (Inl err, c1) \<Rightarrow> (Inl err, c1)
      | (Inr listOutput, c1) \<Rightarrow> (Inr (lo_FilterMap parseVersion (CommonPrefixes listOutput)), c1))"

text \<open>\<^verbatim>\<open>deleteOldStatics\<close> (lines 443-510).\<close>

definition deleteOldStatics ::
  "string \<Rightarrow> s3_bucket \<Rightarrow> string \<Rightarrow> int \<Rightarrow> go_error option \<times> s3_bucket" where
  "deleteOldStatics goos c appName currentVer =
     (case listVersions c appName of
        (Inl err, c1) \<Rightarrow> (Some err, c1)
      | (Inr versions, c1) \<Rightarrow>
          (case deleteTooNew goos c1 appName currentVer [] versions of
             (Inl err, c2) \<Rightarrow> (Some err, c2)
           | (Inr ignore, c2) \<Rightarrow>
               deleteVersions goos c2 appName
                 (oldVersions (retentionCandidates ignore versions))))"

text \<open>
  Vocabulary for the theorems: the keys a single listing page returns for a prefix
  without delimiter; the keys of a bucket under a prefix; the path of a version
  directory without its final slash; whether a key lies in the directory of one of the
  given versions.
\<close>

definition pageKeys :: "s3_bucket \<Rightarrow> string \<Rightarrow> string list" where
  "pageKeys c pfx = take s3MaxKeys (lo_Uniq (sort (filter (prefix pfx) (map fst (objects c)))))"

definition keysUnder :: "string \<Rightarrow> s3_bucket \<Rightarrow> string list" where
  "keysUnder pfx c = filter (prefix pfx) (map fst (objects c))"

definition versionPath :: "string \<Rightarrow> int \<Rightarrow> string" where
  "versionPath appName v = ''fly-statics/'' @ appName @ ''/'' @ Itoa v"

definition underVersions :: "string \<Rightarrow> int list \<Rightarrow> string \<Rightarrow> bool" where
  "underVersions appName versions key = list_ex (\<lambda>v. prefix (versionDir appName v) key) versions"

text \<open>
  Concrete buckets for the evaluations below: \<open>example_versions\<close> holds one object in
  each of the given version directories of application "my-app"; \<open>many_objects\<close> is \<open>n\<close>
  objects named "a", "aa", "aaa" and so on in one directory; \<open>oversized_release\<close> is the
  root of release 7 of "my-app" with 1001 objects in its first statics directory;
  \<open>oversized_oldest_version\<close> is versions 1 to 7 of "my-app", version 1 with 1001 objects
  and the others with one; \<open>oversized_newer_version\<close> is versions 1, 2 and 10, version 10
  with 1001 objects and the others with one; \<open>padded_versions\<close> is one object in each of
  the directories "01", "02", "03", "04", "5", "6", "7" of "my-app", and
  \<open>padded_newer_version\<close> one in each of "1", "2", "010".
\<close>

definition example_object :: s3_object where
  "example_object = \<lparr>Body = ''<html></html>'', ContentType = ''text/html; charset=utf-8''\<rparr>"

definition example_versions :: "int list \<Rightarrow> s3_bucket" where
  "example_versions versions =
     \<lparr>objects = map (\<lambda>v. (versionDir ''my-app'' v @ ''0/index.html'', example_object)) versions,
      failures = []\<rparr>"

definition many_objects :: "string \<Rightarrow> nat \<Rightarrow> (string \<times> s3_object) list" where
  "many_objects dir n = map (\<lambda>i. (dir @ replicate (Suc i) (CHR ''a''), example_object)) [0..<n]"

definition oversized_release :: s3_bucket where
  "oversized_release =
     \<lparr>objects = many_objects ''fly-statics/my-app/7/0/'' 1001, failures = []\<rparr>"

definition oversized_oldest_version :: s3_bucket where
  "oversized_oldest_version =
     \<lparr>objects = many_objects ''fly-statics/my-app/1/0/'' 1001
                 @ objects (example_versions [2, 3, 4, 5, 6, 7]),
      failures = []\<rparr>"

definition oversized_newer_version :: s3_bucket where
  "oversized_newer_version =
     \<lparr>objects = objects (example_versions [1])
                 @ many_objects ''fly-statics/my-app/10/0/'' 1001
                 @ objects (example_versions [2]),
      failures = []\<rparr>"

definition padded_versions :: s3_bucket where
  "padded_versions =
     \<lparr>objects = map (\<lambda>dir. (''fly-statics/my-app/'' @ dir @ ''/0/index.html'', example_object))
                   [''01'', ''02'', ''03'', ''04'', ''5'', ''6'', ''7''],
      failures = []\<rparr>"

definition padded_newer_version :: s3_bucket where
  "padded_newer_version =
     \<lparr>objects = map (\<lambda>dir. (''fly-statics/my-app/'' @ dir @ ''/0/index.html'', example_object))
                   [''1'', ''2'', ''010''],
      failures = []\<rparr>"
section \<open>Uploading a directory\<close>

text \<open>
  A regular file under the local root: its name relative to the root, as \<^verbatim>\<open>fs.WalkDir\<close>
  reports it (slash-separated), its content, and the step at which handling it fails,
  if any.
\<close>

datatype io_fault = OpenFails go_error | ReadFails go_error | SeekFails go_error

record local_file =
  File_Name :: string
  File_Content :: string
  File_Fault :: "io_fault option"

text \<open>
  What the scheduling decides in a run of the worker pool in which some step fails: the
  files the workers have put by the time the pool has stopped, in the order the store
  received them, and the error the caller finds in the channel \<^verbatim>\<open>workerErr\<close>, if one has
  been sent by the time the caller looks.
\<close>

record pool_run =
  Run_Put :: "local_file list"
  Run_Reported :: "go_error option"

text \<open>
  What \<^verbatim>\<open>uploadDirectory\<close> takes from the platform: \<^verbatim>\<open>runtime.GOOS\<close>; the walk over a
  local directory, which gives the regular files in lexical order or the error that ended
  it; the two content-type tables, \<^verbatim>\<open>mime.TypeByExtension\<close> (empty for an unknown
  extension) and \<^verbatim>\<open>http.DetectContentType\<close>; and the scheduling of the goroutines, for
  each queue of files.
\<close>

record upload_env =
  GOOS :: string
  WalkDir :: "string \<Rightarrow> go_error + local_file list"
  TypeByExtension :: "string \<Rightarrow> string"
  DetectContentType :: "string \<Rightarrow> string"
  Scheduling :: "local_file list \<Rightarrow> pool_run"

text \<open>
  Lines 335-350: the content type by extension, else by the first 512 bytes. The buffer
  of 512 zero bytes is handed to the detection whole, whatever number of bytes was read;
  reading an empty file reports the end of the file as an error.
\<close>

definition first512 :: "string \<Rightarrow> string" where
  "first512 content = take 512 content @ replicate (512 - length content) (CHR 0x00)"

definition mimeTypeOf :: "upload_env \<Rightarrow> local_file \<Rightarrow> go_error + string" where
  "mimeTypeOf env f =
     (let detectedMime = TypeByExtension env (Ext (GOOS env) (File_Name f))
      in if detectedMime \<noteq> [] then Inr detectedMime
         else
           (case File_Fault f of
              Some (ReadFails err) \<Rightarrow> Inl (Error (''failed to read static file '' @ File_Name f))
            | fault \<Rightarrow>
                if File_Content f = []
                then Inl (Error (''failed to read static file '' @ File_Name f))
                else
                  (case fault of
                     Some (SeekFails err) \<Rightarrow>
                       Inl (Error (''failed to seek static file '' @ File_Name f))
                   | _ \<Rightarrow> Inr (DetectContentType env (first512 (File_Content f))))))"

text \<open>The key an uploaded file gets (lines 352-361).\<close>

definition objectKey :: "upload_env \<Rightarrow> string \<Rightarrow> local_file \<Rightarrow> string" where
  "objectKey env dest f =
     Join dest (if GOOS env = ''windows'' then ReplaceAll (File_Name f) backslash (CHR ''/'')
                else File_Name f)"

text \<open>Lines 328-373, the body of a worker's loop: one file is opened, typed and put.\<close>

definition uploadFile ::
  "upload_env \<Rightarrow> s3_bucket \<Rightarrow> string \<Rightarrow> local_file \<Rightarrow> go_error option \<times> s3_bucket" where
  "uploadFile env c dest f =
     (case File_Fault f of
        Some (OpenFails err) \<Rightarrow> (Some err, c)
      | fault \<Rightarrow>
          (case mimeTypeOf env f of
             Inl err \<Rightarrow> (Some err, c)
           | Inr mimeType \<Rightarrow> PutObject c (objectKey env dest f) (File_Content f) mimeType))"

text \<open>
  The object a file becomes under a destination when its upload succeeds, and the bucket
  after the given files have been put one after the other.
\<close>

definition uploadedObject :: "upload_env \<Rightarrow> string \<Rightarrow> local_file \<Rightarrow> string \<times> s3_object" where
  "uploadedObject env dest f =
     (objectKey env dest f,
      \<lparr>Body = File_Content f,
       ContentType = (case mimeTypeOf env f of Inl err \<Rightarrow> [] | Inr mimeType \<Rightarrow> mimeType)\<rparr>)"

definition putFiles :: "upload_env \<Rightarrow> s3_bucket \<Rightarrow> string \<Rightarrow> local_file list \<Rightarrow> s3_bucket" where
  "putFiles env c dest files =
     foldl (\<lambda>b f. b\<lparr>objects := filter (\<lambda>obj. fst obj \<noteq> objectKey env dest f) (objects b)
                                  @ [uploadedObject env dest f]\<rparr>) c files"

text \<open>
  Lines 314-396, the pool of five workers over the closed queue of file names.
  \<open>uploadAll\<close> is the queue worked off by one worker, which stops at the first step that
  fails. When no step fails, the five workers have put every file and the error channel
  is empty, whatever the scheduling; the order of the puts depends on it, the objects do
  not, and the model puts the files in queue order. When a step fails, the scheduling
  decides the rest: the failing worker stops, the others go on taking files until the
  queue is empty or their requests are cancelled, which happens only after an error has
  been sent; and since a worker signs off (the deferred \<^verbatim>\<open>wg.Done\<close> inside \<^verbatim>\<open>worker\<close>)
  before its error is sent on line 382, the caller, past \<^verbatim>\<open>wg.Wait\<close>, may find the channel
  still empty and return \<^verbatim>\<open>nil\<close>. The model takes the files put and the error found from
  \<open>Scheduling\<close>; the failure schedule of the bucket is left as the single worker leaves it.
\<close>

fun uploadAll ::
  "upload_env \<Rightarrow> s3_bucket \<Rightarrow> string \<Rightarrow> local_file list \<Rightarrow> go_error option \<times> s3_bucket" where
  "uploadAll env c dest [] = (None, c)"
| "uploadAll env c dest (f # files) =
     (case uploadFile env c dest f of
        (Some err, c') \<Rightarrow> (Some err, c')
      | (None, c') \<Rightarrow> uploadAll env c' dest files)"

definition uploadFiles ::
  "upload_env \<Rightarrow> s3_bucket \<Rightarrow> string \<Rightarrow> local_file list \<Rightarrow> go_error option \<times> s3_bucket" where
  "uploadFiles env c dest files =
     (case uploadAll env c dest files of
        (None, c') \<Rightarrow> (None, c')
      | (Some err, c') \<Rightarrow>
          (Run_Reported (Scheduling env files),
           putFiles env (c\<lparr>failures := failures c'\<rparr>) dest (Run_Put (Scheduling env files))))"

text \<open>\<^verbatim>\<open>uploadDirectory\<close> (lines 288-397).\<close>

definition uploadDirectory ::
  "upload_env \<Rightarrow> s3_bucket \<Rightarrow> string \<Rightarrow> string \<Rightarrow> go_error option \<times> s3_bucket" where
  "uploadDirectory env c dest localPath =
     (case deleteDirectory (GOOS env) c dest of
        (Some err, c1) \<Rightarrow> (Some err, c1)
      | (None, c1) \<Rightarrow>
          (case WalkDir env localPath of
             Inl err \<Rightarrow> (Some err, c1)
           | Inr files \<Rightarrow> uploadFiles env c1 dest files))"

text \<open>
  Vocabulary for the theorems: a path element that \<^verbatim>\<open>path.Clean\<close> leaves alone; a
  relative path made of such elements, which is what \<^verbatim>\<open>fs.WalkDir\<close> reports and what the
  version directories are.
\<close>

definition cleanElem :: "string \<Rightarrow> bool" where
  "cleanElem e = (e \<noteq> [] \<and> e \<noteq> ''.'' \<and> e \<noteq> ''..'')"

definition cleanRelative :: "string \<Rightarrow> bool" where
  "cleanRelative p = list_all cleanElem (Split p (CHR ''/''))"

text \<open>
  A concrete platform for the evaluations below. The local directories: "public" with a
  page and a style sheet, "public2" with another page only, "assets" with the 1001 pages
  of \<open>assets_files\<close>, named "a", "aa", "aaa" and so on, "broken" with one file that cannot
  be opened, and an empty one. Only a failing run consults the scheduling, and of these
  directories only "broken" fails: the worker that took its file is the last to finish,
  nothing has been put, and the caller looks into the error channel before the error is
  sent.
\<close>

definition assets_files :: "local_file list" where
  "assets_files =
     map (\<lambda>i. \<lparr>File_Name = replicate (Suc i) (CHR ''a''), File_Content = ''<html></html>'',
                 File_Fault = None\<rparr>) [0..<1001]"

definition example_upload_env :: upload_env where
  "example_upload_env =
     \<lparr>GOOS = ''linux'',
      WalkDir = (\<lambda>localPath.
        if localPath = ''public'' then
          Inr [\<lparr>File_Name = ''css/site.css'', File_Content = ''body {}'', File_Fault = None\<rparr>,
               \<lparr>File_Name = ''index.html'', File_Content = ''<html>1</html>'', File_Fault = None\<rparr>]
        else if localPath = ''public2'' then
          Inr [\<lparr>File_Name = ''index.html'', File_Content = ''<html>2</html>'', File_Fault = None\<rparr>]
        else if localPath = ''assets'' then Inr assets_files
        else if localPath = ''broken'' then
          Inr [\<lparr>File_Name = ''index.html'', File_Content = ''<html>3</html>'',
                File_Fault = Some (OpenFails (Error ''permission denied''))\<rparr>]
        else if localPath = ''empty'' then Inr []
        else Inl (Error ''no such file or directory'')),
      TypeByExtension = (\<lambda>ext.
        if ext = ''.html'' then ''text/html; charset=utf-8''
        else if ext = ''.css'' then ''text/css; charset=utf-8''
        else []),
      DetectContentType = (\<lambda>data.
        if prefix ''<html>'' data then ''text/html; charset=utf-8''
        else ''application/octet-stream''),
      Scheduling = (\<lambda>files. \<lparr>Run_Put = [], Run_Reported = None\<rparr>)\<rparr>"

section \<open>Candidate selection: theorems\<close>

text \<open>
  C8. A static spec is selected for synchronisation exactly when its bound bucket is empty
  and its guest path is relative. A spec with guest path "assets" and no bound bucket is
  selected, one with guest path "/assets" is not, and one with a bound bucket is not even
  when its guest path is relative; in each case whatever the other fields hold.
\<close>

theorem candidate_iff_unbound_and_relative:
  "(staticIsCandidateForTigrisPush s =
      (TigrisBucket s = [] \<and> spec_relative_path (GuestPath s)))
   \<and> staticIsCandidateForTigrisPush (s\<lparr>GuestPath := ''assets'', TigrisBucket := []\<rparr>)
   \<and> \<not> staticIsCandidateForTigrisPush (s\<lparr>GuestPath := ''/assets'', TigrisBucket := []\<rparr>)
   \<and> \<not> staticIsCandidateForTigrisPush (s\<lparr>GuestPath := ''assets'', TigrisBucket := b # bs\<rparr>)"
  by (cases "GuestPath s")
     (simp_all add: staticIsCandidateForTigrisPush_def spec_relative_path_def
        spec_absolute_path_def)

theorem candidate_iff_unbound_and_relative_witness:
  "staticIsCandidateForTigrisPush
     \<lparr>GuestPath = ''assets'', UrlPrefix = ''/static'', TigrisBucket = [], IndexDocument = []\<rparr>
   \<and> \<not> staticIsCandidateForTigrisPush
     \<lparr>GuestPath = ''/assets'', UrlPrefix = ''/static'', TigrisBucket = [], IndexDocument = []\<rparr>
   \<and> \<not> staticIsCandidateForTigrisPush
     \<lparr>GuestPath = ''assets'', UrlPrefix = ''/static'', TigrisBucket = ''my-bucket'', IndexDocument = []\<rparr>"
  using candidate_iff_unbound_and_relative
          [of "\<lparr>GuestPath = ''assets'', UrlPrefix = ''/static'', TigrisBucket = [], IndexDocument = []\<rparr>"]
        candidate_iff_unbound_and_relative
          [of "\<lparr>GuestPath = ''/assets'', UrlPrefix = ''/static'', TigrisBucket = [], IndexDocument = []\<rparr>"]
        candidate_iff_unbound_and_relative
          [of "\<lparr>GuestPath = ''assets'', UrlPrefix = ''/static'', TigrisBucket = ''my-bucket'', IndexDocument = []\<rparr>"]
  by (simp add: spec_relative_path_def spec_absolute_path_def)

text \<open>
  C10. A static spec whose guest path is the empty string is never selected, whatever its
  other fields hold.
\<close>

theorem empty_guest_path_never_candidate:
  "GuestPath s = '''' \<Longrightarrow> \<not> staticIsCandidateForTigrisPush s"
  by (simp add: staticIsCandidateForTigrisPush_def)

theorem empty_guest_path_never_candidate_witness:
  "GuestPath \<lparr>GuestPath = '''', UrlPrefix = ''/static'', TigrisBucket = '''', IndexDocument = ''index.html''\<rparr> = ''''
   \<and> \<not> staticIsCandidateForTigrisPush
        \<lparr>GuestPath = '''', UrlPrefix = ''/static'', TigrisBucket = '''', IndexDocument = ''index.html''\<rparr>"
  using empty_guest_path_never_candidate
          [of "\<lparr>GuestPath = '''', UrlPrefix = ''/static'', TigrisBucket = '''', IndexDocument = ''index.html''\<rparr>"]
  by simp

section \<open>The scale coordinator: theorems\<close>

lemma scaleLoop_exits:
  "scaleLoop env sizeName memoryMB handled (m # ms) w = (Exits 1, w)"
  by (simp add: scaleMachine_def osExit_def Let_def)

lemma AcquireLeases_all:
  "AcquireLeases env ms w = ((held, None), w') \<Longrightarrow>
     held = ms \<and> w' = w\<lparr>heldLeases := heldLeases w @ map Machine_ID ms\<rparr>"
proof (induction ms arbitrary: w held w')
  case Nil
  then show ?case by simp
next
  case (Cons m ms)
  from Cons.prems obtain held' where
    none: "leaseErr env m = None" and
    rec: "AcquireLeases env ms (w\<lparr>heldLeases := heldLeases w @ [Machine_ID m]\<rparr>) = ((held', None), w')" and
    held: "held = m # held'"
    by (auto split: option.splits prod.splits)
  from Cons.IH [OF rec] held show ?case by simp
qed

lemma scaleUnderLeases_acquired:
  assumes "ms \<noteq> []" and "AcquireLeases env ms w = ((held, None), w1)"
  shows "scaleUnderLeases env sizeName memoryMB ms w = (Exits 1, w1)"
proof -
  from AcquireLeases_all [OF assms(2)] have "held = ms" by simp
  with assms(1) obtain m rest where "held = m # rest" by (cases held) auto
  then show ?thesis
    using assms(2) by (simp add: scaleUnderLeases_def scaleLoop_exits deferred_def del: scaleLoop.simps)
qed

lemma scaleUnderLeases_not_acquired:
  assumes "AcquireLeases env ms w = ((held, Some e), w1)"
  shows "scaleUnderLeases env sizeName memoryMB ms w = (Returns (Inl e), releaseFunc held w1)"
  using assms by (simp add: scaleUnderLeases_def deferred_def)

lemma scaleUnderLeases_cases:
  assumes "ms \<noteq> []"
  shows "(\<exists>e held w1. scaleUnderLeases env sizeName memoryMB ms w = (Returns (Inl e), w1))
       \<or> scaleUnderLeases env sizeName memoryMB ms w
           = (Exits 1, w\<lparr>heldLeases := heldLeases w @ map Machine_ID ms\<rparr>)"
proof -
  obtain held err w1 where a: "AcquireLeases env ms w = ((held, err), w1)"
    by (metis prod.exhaust)
  show ?thesis
  proof (cases err)
    case None
    with a AcquireLeases_all [of env ms w held w1] scaleUnderLeases_acquired [OF assms, of env w held w1]
    show ?thesis by simp
  next
    case (Some e)
    with a scaleUnderLeases_not_acquired [of env ms w held e w1] show ?thesis by simp
  qed
qed

text \<open>
  Whatever the collaborators answer, \<^verbatim>\<open>v2ScaleVM\<close> either returns an error or exits
  the process with every acquired lease still held; it never returns a size.
\<close>

lemma v2ScaleVM_cases:
  "(\<exists>e w1. v2ScaleVM env appName groupName sizeName memoryMB w = (Returns (Inl e), w1))
   \<or> (\<exists>ms :: Machine list. ms \<noteq> [] \<and> v2ScaleVM env appName groupName sizeName memoryMB w
           = (Exits 1, w\<lparr>heldLeases := heldLeases w @ map Machine_ID ms\<rparr>))"
proof (cases "newClient env")
  case (Some err)
  then show ?thesis by (simp add: v2ScaleVM_def)
next
  case client: None
  show ?thesis
  proof (cases "validateSizeName env sizeName")
    case (Some err)
    with client show ?thesis by (simp add: v2ScaleVM_def)
  next
    case valid: None
    show ?thesis
    proof (cases "resolveGroup env groupName")
      case (Inl err)
      with client valid show ?thesis by (simp add: v2ScaleVM_def)
    next
      case grp: (Inr group')
      show ?thesis
      proof (cases "listMachinesWithGroup env group'")
        case (Inl err)
        with client valid grp show ?thesis by (simp add: v2ScaleVM_def)
      next
        case (Inr machines)
        show ?thesis
        proof (cases "machines = []")
          case True
          with client valid grp Inr show ?thesis by (simp add: v2ScaleVM_def)
        next
          case False
          with client valid grp Inr
          have eq: "v2ScaleVM env appName groupName sizeName memoryMB w
                  = scaleUnderLeases env sizeName memoryMB machines w"
            by (simp add: v2ScaleVM_def)
          from scaleUnderLeases_cases [OF False, of env sizeName memoryMB w]
          show ?thesis
          proof
            assume "\<exists>e held w1. scaleUnderLeases env sizeName memoryMB machines w = (Returns (Inl e), w1)"
            then obtain e w1 where "scaleUnderLeases env sizeName memoryMB machines w = (Returns (Inl e), w1)"
              by blast
            with eq have "v2ScaleVM env appName groupName sizeName memoryMB w = (Returns (Inl e), w1)"
              by simp
            then show ?thesis by blast
          next
            assume "scaleUnderLeases env sizeName memoryMB machines w
                      = (Exits 1, w\<lparr>heldLeases := heldLeases w @ map Machine_ID machines\<rparr>)"
            with eq False
            have "machines \<noteq> [] \<and> v2ScaleVM env appName groupName sizeName memoryMB w
                    = (Exits 1, w\<lparr>heldLeases := heldLeases w @ map Machine_ID machines\<rparr>)"
              by simp
            then show ?thesis by blast
          qed
        qed
      qed
    qed
  qed
qed

lemma example_listMachines:
  "listMachinesWithGroup example_scale_env ''app'' = Inr [example_machine]"
  by (simp add: listMachinesWithGroup_def example_scale_env_def example_machine_def)

lemma example_validateSizeName:
  "validateSizeName example_scale_env ''shared-cpu-2x'' = None"
  by (simp add: validateSizeName_def SetSize_def example_scale_env_def)

lemma example_resolveGroup: "resolveGroup example_scale_env ''app'' = Inr ''app''"
  by (simp add: resolveGroup_def)

lemma example_AcquireLeases:
  "AcquireLeases example_scale_env [example_machine] (example_scale_world rs)
     = (([example_machine], None),
        \<lparr>heldLeases = [''m1''], updateResults = rs, updateCalls = []\<rparr>)"
  by (simp add: example_scale_env_def example_scale_world_def example_machine_def)

lemma example_v2ScaleVM:
  "v2ScaleVM example_scale_env ''my-app'' ''app'' ''shared-cpu-2x'' 512 (example_scale_world rs)
     = (Exits 1, \<lparr>heldLeases = [''m1''], updateResults = rs, updateCalls = []\<rparr>)"
proof -
  have "newClient example_scale_env = None"
    by (simp add: example_scale_env_def)
  then show ?thesis
    by (simp add: v2ScaleVM_def example_listMachines example_validateSizeName
          example_resolveGroup scaleUnderLeases_acquired [OF _ example_AcquireLeases])
qed

lemma example_updateMachine_retry_ok:
  "updateMachine example_machine example_input
       (example_scale_world [Some (InvalidConfigErr ''memory too low'' True), None])
     = (Returns (Some (InvalidConfigErr ''memory too low'' True)),
        \<lparr>heldLeases = [], updateResults = [],
         updateCalls = [(''m1'', example_input), (''m1'', example_input)]\<rparr>)"
  by (simp add: updateMachine_def Update_def assertInvalidConfigErr_AttemptFix_def
        example_scale_world_def example_machine_def)

lemma example_updateMachine_retry_fails:
  "fst (updateMachine example_machine example_input
       (example_scale_world [Some (InvalidConfigErr ''memory too low'' True),
                             Some (Error ''second failure'')]))
     = Returns (Some (Error ''second failure''))"
  by (simp add: updateMachine_def Update_def assertInvalidConfigErr_AttemptFix_def
        example_scale_world_def)

lemma example_updateMachine_panics:
  "fst (updateMachine example_machine example_input
       (example_scale_world [Some (Error ''machine not found'')]))
     = Panics ''interface conversion: error is not machine.InvalidConfigErr''"
  by (simp add: updateMachine_def Update_def assertInvalidConfigErr_AttemptFix_def
        example_scale_world_def)

text \<open>
  C1. Once a machine's lease is acquired it is released before the operation ends, on
  every exit path. The code does not do that: with one active machine whose lease is
  acquired, the process exits with status 1 inside the loop (line 76), the deferred
  release does not run, and the lease of machine "m1" is still held.
\<close>

theorem v2ScaleVM_exits_with_lease_held:
  "v2ScaleVM example_scale_env ''my-app'' ''app'' ''shared-cpu-2x'' 512
       (example_scale_world [Some (Error ''update failed'')])
     = (Exits 1,
        \<lparr>heldLeases = [''m1''], updateResults = [Some (Error ''update failed'')],
         updateCalls = []\<rparr>)"
  by (rule example_v2ScaleVM)

text \<open>
  C2. A failing update with a fixable invalid-configuration error is retried once and the
  operation succeeds when the retry does; otherwise the original error is returned, and
  an unrecognised error is never fatal. The code does not do that. As written, no update
  is ever requested (the process exits first). The update block itself (lines 79-92), on
  the same schedules: returns the original error although the retry succeeded; returns
  the second error, not the original one, when the retry fails; and panics on an error
  that is not an invalid-configuration error.
\<close>

theorem v2ScaleVM_fix_and_retry_broken:
  "v2ScaleVM example_scale_env ''my-app'' ''app'' ''shared-cpu-2x'' 512
       (example_scale_world [Some (InvalidConfigErr ''memory too low'' True), None])
     = (Exits 1,
        \<lparr>heldLeases = [''m1''],
         updateResults = [Some (InvalidConfigErr ''memory too low'' True), None],
         updateCalls = []\<rparr>)
   \<and> updateMachine example_machine example_input
       (example_scale_world [Some (InvalidConfigErr ''memory too low'' True), None])
     = (Returns (Some (InvalidConfigErr ''memory too low'' True)),
        \<lparr>heldLeases = [], updateResults = [],
         updateCalls = [(''m1'', example_input), (''m1'', example_input)]\<rparr>)
   \<and> fst (updateMachine example_machine example_input
       (example_scale_world [Some (InvalidConfigErr ''memory too low'' True),
                             Some (Error ''second failure'')]))
     = Returns (Some (Error ''second failure''))
   \<and> fst (updateMachine example_machine example_input
       (example_scale_world [Some (Error ''machine not found'')]))
     = Panics ''interface conversion: error is not machine.InvalidConfigErr''"
  using example_v2ScaleVM example_updateMachine_retry_ok example_updateMachine_retry_fails
    example_updateMachine_panics
  by blast

section \<open>Bucket provisioning: theorems\<close>

lemma mapIndex_simps:
  "mapIndex [] key = VNil"
  "mapIndex ((k, v) # m) key = (if k = key then v else mapIndex m key)"
  by (simp_all add: mapIndex_def)

lemma findStaticsAddOn_passedOver:
  "list_all (passedOver appID) nodes \<Longrightarrow> findStaticsAddOn appID nodes = Returns None"
  by (induction nodes) (auto simp: passedOver_def split: go_value.splits)

lemma example_missing_credential:
  "fst (staticsEnsureBucketCreated example_deployment
       (example_control_plane
          [\<lparr>AddOn_Name = ''my-app-statics'',
            AddOn_Metadata = VMap [(''fly-statics-app-id'', VString ''app-1'')]\<rparr>]
          (\<lambda>name. Inr example_extension)))
     = Panics ''interface conversion: interface {} is not string''"
  by (simp add: staticsEnsureBucketCreated_def example_control_plane_def example_deployment_def
       mapIndex_simps staticsMetaKeyAppId_def staticsMetaTokenizedAuth_def)

lemma example_metadata_not_a_map:
  "fst (staticsEnsureBucketCreated example_deployment
       (example_control_plane
          [\<lparr>AddOn_Name = ''other'', AddOn_Metadata = VString ''note''\<rparr>]
          (\<lambda>name. Inr example_extension)))
     = Panics ''interface conversion: interface {} is not map[string]interface {}''"
  by (simp add: staticsEnsureBucketCreated_def example_control_plane_def example_deployment_def)

lemma example_credential_not_a_string:
  "fst (staticsEnsureBucketCreated example_deployment
       (example_control_plane
          [\<lparr>AddOn_Name = ''my-app-statics'',
            AddOn_Metadata = VMap [(''fly-statics-app-id'', VString ''app-1''),
                                   (''fly-statics-tokenized-auth'', VNumber 5)]\<rparr>]
          (\<lambda>name. Inr example_extension)))
     = Panics ''interface conversion: interface {} is not string''"
  by (simp add: staticsEnsureBucketCreated_def example_control_plane_def example_deployment_def
       mapIndex_simps staticsMetaKeyAppId_def staticsMetaTokenizedAuth_def)

text \<open>
  The panic of line 93 comes after line 92 has recorded the add-on's name as the bucket.
\<close>

lemma example_panic_keeps_bucket_name:
  "fst (snd (staticsEnsureBucketCreated example_deployment
       (example_control_plane
          [\<lparr>AddOn_Name = ''my-app-statics'',
            AddOn_Metadata = VMap [(''fly-statics-app-id'', VString ''app-1'')]\<rparr>]
          (\<lambda>name. Inr example_extension))))
     = example_deployment\<lparr>tigrisStatics_bucket := ''my-app-statics''\<rparr>"
  by (simp add: staticsEnsureBucketCreated_def example_control_plane_def example_deployment_def
       mapIndex_simps staticsMetaKeyAppId_def staticsMetaTokenizedAuth_def)

text \<open>
  C3. Absent or malformed metadata on an existing add-on is treated as "not ours" and is
  never fatal. The code does that for \<^verbatim>\<open>nil\<close> metadata and for a map without this
  application's id (\<open>findStaticsAddOn_passedOver\<close>), and not otherwise: an add-on whose
  metadata names this application but lacks the credential entry, one whose metadata is
  not a map, and one whose credential entry is not a string each make
  \<^verbatim>\<open>staticsEnsureBucketCreated\<close> panic.
\<close>

theorem malformed_metadata_panics:
  "fst (staticsEnsureBucketCreated example_deployment
       (example_control_plane
          [\<lparr>AddOn_Name = ''my-app-statics'',
            AddOn_Metadata = VMap [(''fly-statics-app-id'', VString ''app-1'')]\<rparr>]
          (\<lambda>name. Inr example_extension)))
     = Panics ''interface conversion: interface {} is not string''
   \<and> fst (staticsEnsureBucketCreated example_deployment
       (example_control_plane
          [\<lparr>AddOn_Name = ''other'', AddOn_Metadata = VString ''note''\<rparr>]
          (\<lambda>name. Inr example_extension)))
     = Panics ''interface conversion: interface {} is not map[string]interface {}''
   \<and> fst (staticsEnsureBucketCreated example_deployment
       (example_control_plane
          [\<lparr>AddOn_Name = ''my-app-statics'',
            AddOn_Metadata = VMap [(''fly-statics-app-id'', VString ''app-1''),
                                   (''fly-statics-tokenized-auth'', VNumber 5)]\<rparr>]
          (\<lambda>name. Inr example_extension)))
     = Panics ''interface conversion: interface {} is not string''"
  using example_missing_credential example_metadata_not_a_map example_credential_not_a_string
  by (intro conjI)

lemma provisionBucket_collision_retry_fails:
  assumes "provision_result cp (appConfig_AppName md @ ''-statics'') = Inl err"
    and "nameTaken err"
    and "provision_result cp (appConfig_AppName md @ ''-statics'' @ ''-'' @ haikunator cp) = Inl newErr"
  shows "provisionBucket md cp =
           ((appConfig_AppName md @ ''-statics'' @ ''-'' @ haikunator cp, Inl err),
            cp\<lparr>provisioned := provisioned cp @
                 [appConfig_AppName md @ ''-statics'',
                  appConfig_AppName md @ ''-statics'' @ ''-'' @ haikunator cp]\<rparr>)"
  using assms by (simp add: provisionBucket_def ProvisionExtension_def Let_def)

lemma provisionBucket_collision_retry_succeeds:
  assumes "provision_result cp (appConfig_AppName md @ ''-statics'') = Inl err"
    and "nameTaken err"
    and "provision_result cp (appConfig_AppName md @ ''-statics'' @ ''-'' @ haikunator cp) = Inr newExt"
  shows "provisionBucket md cp =
           ((appConfig_AppName md @ ''-statics'' @ ''-'' @ haikunator cp, Inr newExt),
            cp\<lparr>provisioned := provisioned cp @
                 [appConfig_AppName md @ ''-statics'',
                  appConfig_AppName md @ ''-statics'' @ ''-'' @ haikunator cp]\<rparr>)"
  using assms by (simp add: provisionBucket_def ProvisionExtension_def Let_def)

lemma provisionBucket_other_error:
  assumes "provision_result cp (appConfig_AppName md @ ''-statics'') = Inl err"
    and "\<not> nameTaken err"
  shows "provisionBucket md cp =
           ((appConfig_AppName md @ ''-statics'', Inl err),
            cp\<lparr>provisioned := provisioned cp @ [appConfig_AppName md @ ''-statics'']\<rparr>)"
  using assms by (simp add: provisionBucket_def ProvisionExtension_def Let_def)

lemma name_taken_message:
  "nameTaken (Error ''Name my-app-statics already exists for app'')"
  by (simp add: nameTaken_def)

lemma not_authorized_message: "\<not> nameTaken (Error ''not authorized'')"
  by (simp add: nameTaken_def)

lemma example_ParseUint: "ParseUint ''42'' = Inr 42"
  by (simp add: ParseUint_def isDigit_def digitVal_def)

lemma example_configureBucket:
  "configureBucket example_deployment (example_control_plane [] p\<lparr>provisioned := ns\<rparr>)
      \<lparr>Org_Slug = ''personal'', Org_InternalNumericID = ''42''\<rparr> name example_extension
   = (Returns (''sealed'', None), example_deployment\<lparr>tigrisStatics_bucket := name\<rparr>,
      example_control_plane [] p
        \<lparr>provisioned := ns,
         metadataWritten := [(''addon-1'', [(''fly-statics-app-id'', VString ''app-1''),
                                           (''fly-statics-tokenized-auth'', VString ''sealed'')])]\<rparr>)"
  by (simp add: configureBucket_def example_extension_def staticsTokenizeTigrisSecrets_def
        example_ParseUint mapIndex_simps example_control_plane_def UpdateAddOn_def
        example_deployment_def staticsMetaKeyAppId_def staticsMetaTokenizedAuth_def)

text \<open>
  C6. When the creation of the bucket fails because the name is taken (the error message
  says "already exists for app" or "unavailable for creation"), the creation is tried
  exactly once more under the preferred name with a random suffix appended; if that
  fails too, the first error is returned; if it succeeds, provisioning goes on with the
  new extension under the suffixed name. Any other creation error is returned without a
  second attempt. The requests \<^verbatim>\<open>ProvisionExtension\<close> received are the ones listed.
\<close>

theorem name_collision_retried_once:
  assumes "listAddOns_result cp = Inr nodes"
    and "findStaticsAddOn (app_ID md) nodes = Returns None"
    and "organization_result cp = Inr org"
    and "provision_result cp (appConfig_AppName md @ ''-statics'') = Inl err"
  shows "(nameTaken err \<and>
          provision_result cp (appConfig_AppName md @ ''-statics'' @ ''-'' @ haikunator cp) = Inl newErr
            \<longrightarrow> staticsEnsureBucketCreated md cp =
                  (Returns ([], Some err), md,
                   cp\<lparr>provisioned := provisioned cp @
                        [appConfig_AppName md @ ''-statics'',
                         appConfig_AppName md @ ''-statics'' @ ''-'' @ haikunator cp]\<rparr>))
       \<and> (nameTaken err \<and>
          provision_result cp (appConfig_AppName md @ ''-statics'' @ ''-'' @ haikunator cp) = Inr newExt
            \<longrightarrow> staticsEnsureBucketCreated md cp =
                  configureBucket md
                    (cp\<lparr>provisioned := provisioned cp @
                         [appConfig_AppName md @ ''-statics'',
                          appConfig_AppName md @ ''-statics'' @ ''-'' @ haikunator cp]\<rparr>)
                    org (appConfig_AppName md @ ''-statics'' @ ''-'' @ haikunator cp) newExt)
       \<and> (\<not> nameTaken err
            \<longrightarrow> staticsEnsureBucketCreated md cp =
                  (Returns ([], Some err), md,
                   cp\<lparr>provisioned := provisioned cp @ [appConfig_AppName md @ ''-statics'']\<rparr>))"
proof (intro conjI impI)
  assume "nameTaken err \<and>
    provision_result cp (appConfig_AppName md @ ''-statics'' @ ''-'' @ haikunator cp) = Inl newErr"
  then show "staticsEnsureBucketCreated md cp =
      (Returns ([], Some err), md,
       cp\<lparr>provisioned := provisioned cp @
            [appConfig_AppName md @ ''-statics'',
             appConfig_AppName md @ ''-statics'' @ ''-'' @ haikunator cp]\<rparr>)"
    using assms provisionBucket_collision_retry_fails [of cp md err newErr]
    by (simp add: staticsEnsureBucketCreated_def)
next
  assume "nameTaken err \<and>
    provision_result cp (appConfig_AppName md @ ''-statics'' @ ''-'' @ haikunator cp) = Inr newExt"
  then show "staticsEnsureBucketCreated md cp =
      configureBucket md
        (cp\<lparr>provisioned := provisioned cp @
             [appConfig_AppName md @ ''-statics'',
              appConfig_AppName md @ ''-statics'' @ ''-'' @ haikunator cp]\<rparr>)
        org (appConfig_AppName md @ ''-statics'' @ ''-'' @ haikunator cp) newExt"
    using assms provisionBucket_collision_retry_succeeds [of cp md err newExt]
    by (simp add: staticsEnsureBucketCreated_def)
next
  assume "\<not> nameTaken err"
  then show "staticsEnsureBucketCreated md cp =
      (Returns ([], Some err), md,
       cp\<lparr>provisioned := provisioned cp @ [appConfig_AppName md @ ''-statics'']\<rparr>)"
    using assms provisionBucket_other_error [of cp md err]
    by (simp add: staticsEnsureBucketCreated_def)
qed


theorem name_collision_retried_once_witness:
  "nameTaken (Error ''Name my-app-statics already exists for app'')
   \<and> staticsEnsureBucketCreated example_deployment (example_control_plane [] provision_name_taken)
       = (Returns ([], Some (Error ''Name my-app-statics already exists for app'')),
          example_deployment,
          example_control_plane [] provision_name_taken
            \<lparr>provisioned := [''my-app-statics'', ''my-app-statics-misty-sun-1234'']\<rparr>)
   \<and> staticsEnsureBucketCreated example_deployment
         (example_control_plane [] provision_name_taken_once)
       = (Returns (''sealed'', None),
          example_deployment\<lparr>tigrisStatics_bucket := ''my-app-statics-misty-sun-1234''\<rparr>,
          example_control_plane [] provision_name_taken_once
            \<lparr>provisioned := [''my-app-statics'', ''my-app-statics-misty-sun-1234''],
             metadataWritten := [(''addon-1'', [(''fly-statics-app-id'', VString ''app-1''),
                                  (''fly-statics-tokenized-auth'', VString ''sealed'')])]\<rparr>)
   \<and> \<not> nameTaken (Error ''not authorized'')
   \<and> staticsEnsureBucketCreated example_deployment (example_control_plane [] provision_denied)
       = (Returns ([], Some (Error ''not authorized'')), example_deployment,
          example_control_plane [] provision_denied\<lparr>provisioned := [''my-app-statics'']\<rparr>)"
proof -
  let ?org = "\<lparr>Org_Slug = ''personal'', Org_InternalNumericID = ''42''\<rparr>"
  let ?taken = "Error ''Name my-app-statics already exists for app''"
  have name: "appConfig_AppName example_deployment = ''my-app''"
    by (simp add: example_deployment_def)
  have cp: "listAddOns_result (example_control_plane [] p) = Inr []"
    "organization_result (example_control_plane [] p) = Inr ?org"
    "provision_result (example_control_plane [] p) = p"
    "haikunator (example_control_plane [] p) = ''misty-sun-1234''"
    "provisioned (example_control_plane [] p) = []" for p
    by (simp_all add: example_control_plane_def)
  have a: "staticsEnsureBucketCreated example_deployment (example_control_plane [] provision_name_taken)
       = (Returns ([], Some ?taken), example_deployment,
          example_control_plane [] provision_name_taken
            \<lparr>provisioned := [''my-app-statics'', ''my-app-statics-misty-sun-1234'']\<rparr>)"
    using name_collision_retried_once
            [of "example_control_plane [] provision_name_taken" "[]" example_deployment ?org
                ?taken "Error ''internal server error''"]
    by (simp add: cp name name_taken_message provision_name_taken_def)
  have b: "staticsEnsureBucketCreated example_deployment
         (example_control_plane [] provision_name_taken_once)
       = configureBucket example_deployment
           (example_control_plane [] provision_name_taken_once
              \<lparr>provisioned := [''my-app-statics'', ''my-app-statics-misty-sun-1234'']\<rparr>)
           ?org ''my-app-statics-misty-sun-1234'' example_extension"
    using name_collision_retried_once
            [of "example_control_plane [] provision_name_taken_once" "[]" example_deployment ?org
                ?taken _ example_extension]
    by (simp add: cp name name_taken_message provision_name_taken_once_def)
  have c: "staticsEnsureBucketCreated example_deployment (example_control_plane [] provision_denied)
       = (Returns ([], Some (Error ''not authorized'')), example_deployment,
          example_control_plane [] provision_denied\<lparr>provisioned := [''my-app-statics'']\<rparr>)"
    using name_collision_retried_once
            [of "example_control_plane [] provision_denied" "[]" example_deployment ?org
                "Error ''not authorized''"]
    by (simp add: cp name not_authorized_message provision_denied_def)
  show ?thesis
    unfolding a b c example_configureBucket
    using name_taken_message not_authorized_message by simp
qed

section \<open>The object store and retention: theorems\<close>

subsection \<open>Lists\<close>

lemma Uniq_Nil [simp]: "lo_Uniq [] = []"
  by (simp add: lo_Uniq_def)

lemma Uniq_snoc:
  "lo_Uniq (xs @ [x]) = (if x \<in> set (lo_Uniq xs) then lo_Uniq xs else lo_Uniq xs @ [x])"
  by (simp add: lo_Uniq_def)

lemma set_Uniq [simp]: "set (lo_Uniq xs) = set xs"
  by (induction xs rule: rev_induct) (auto simp: Uniq_snoc)

lemma distinct_Uniq [simp]: "distinct (lo_Uniq xs)"
  by (induction xs rule: rev_induct) (auto simp: Uniq_snoc)

lemma Uniq_distinct: "distinct xs \<Longrightarrow> lo_Uniq xs = xs"
  by (induction xs rule: rev_induct) (auto simp: Uniq_snoc)

lemma Uniq_map_inj: "inj f \<Longrightarrow> lo_Uniq (map f xs) = map f (lo_Uniq xs)"
  by (induction xs rule: rev_induct) (auto simp: Uniq_snoc inj_image_mem_iff)

lemma sorted_Uniq: "sorted xs \<Longrightarrow> sorted (lo_Uniq xs)"
proof (induction xs rule: rev_induct)
  case Nil
  then show ?case by simp
next
  case (snoc x xs)
  then have "sorted xs" and "\<forall>y\<in>set xs. y \<le> x"
    by (auto simp: sorted_append)
  with snoc.IH show ?case
    by (auto simp: Uniq_snoc sorted_append)
qed

lemma length_Uniq_le: "length (lo_Uniq xs) \<le> length xs"
  by (induction xs rule: rev_induct) (auto simp: Uniq_snoc)

lemma concat_Chunk: "0 < n \<Longrightarrow> concat (lo_Chunk xs n) = xs"
proof (induction xs n rule: lo_Chunk.induct)
  case (1 xs n)
  show ?case
  proof (cases "xs = []")
    case True
    then show ?thesis by (simp add: lo_Chunk.simps)
  next
    case False
    with 1 show ?thesis
      by (subst lo_Chunk.simps) simp
  qed
qed

lemma contentKeys_map_Content [simp]: "contentKeys (map Content ks) = ks"
  by (induction ks) auto

lemma commonPrefixes_map_Content [simp]: "commonPrefixes (map Content ks) = []"
  by (induction ks) auto

subsection \<open>Requests\<close>

lemma request_objects: "request c = (f, c') \<Longrightarrow> objects c' = objects c"
  by (auto simp: request_def split: list.splits)

lemma request_no_failures: "failures c = [] \<Longrightarrow> request c = (False, c)"
  by (simp add: request_def)

lemma ListObjectsV2_objects:
  "ListObjectsV2 c pfx d = (r, c') \<Longrightarrow> objects c' = objects c"
  by (auto simp: ListObjectsV2_def split: prod.splits bool.splits dest: request_objects)

lemma ListObjectsV2_Inr:
  "ListObjectsV2 c pfx d = (Inr out, c') \<Longrightarrow>
     Contents out = contentKeys (listPage c pfx d) \<and>
     CommonPrefixes out = commonPrefixes (listPage c pfx d)"
  by (auto simp: ListObjectsV2_def split: prod.splits bool.splits)

lemma contentKeys_listPage_None: "contentKeys (listPage c pfx None) = pageKeys c pfx"
proof -
  have "listEntry pfx None = Content"
    by (rule ext) (simp add: listEntry_def)
  moreover have "inj Content"
    by (simp add: inj_def)
  ultimately show ?thesis
    by (simp add: listPage_def pageKeys_def Uniq_map_inj take_map)
qed

lemma set_pageKeys_subset:
  "set (pageKeys c pfx) \<subseteq> {k \<in> fst ` set (objects c). prefix pfx k}"
proof -
  have "set (pageKeys c pfx) \<subseteq> set (lo_Uniq (sort (filter (prefix pfx) (map fst (objects c)))))"
    unfolding pageKeys_def by (rule set_take_subset)
  then show ?thesis by auto
qed

lemma set_pageKeys_all:
  assumes "length (filter (prefix pfx) (map fst (objects c))) \<le> s3MaxKeys"
  shows "set (pageKeys c pfx) = {k \<in> fst ` set (objects c). prefix pfx k}"
proof -
  have "length (lo_Uniq (sort (filter (prefix pfx) (map fst (objects c))))) \<le> s3MaxKeys"
    using assms length_Uniq_le [of "sort (filter (prefix pfx) (map fst (objects c)))"]
    by simp
  then have "pageKeys c pfx = lo_Uniq (sort (filter (prefix pfx) (map fst (objects c))))"
    by (simp add: pageKeys_def)
  then show ?thesis by auto
qed

subsection \<open>Deleting\<close>

lemma DeleteObjects_cases:
  "DeleteObjects c keys = (r, c') \<Longrightarrow>
     (r \<noteq> None \<and> objects c' = objects c) \<or>
     (r = None \<and> objects c' = filter (\<lambda>obj. fst obj \<notin> set keys) (objects c))"
  by (auto simp: DeleteObjects_def split: prod.splits bool.splits dest: request_objects)

lemma deleteBatches_None:
  "deleteBatches c split = (None, c') \<Longrightarrow>
     objects c' = filter (\<lambda>obj. fst obj \<notin> set (concat split)) (objects c)"
proof (induction split arbitrary: c)
  case Nil
  then show ?case by simp
next
  case (Cons batch split)
  from Cons.prems obtain c1 where
    d: "DeleteObjects c batch = (None, c1)" and r: "deleteBatches c1 split = (None, c')"
    by (auto split: prod.splits option.splits)
  from DeleteObjects_cases [OF d]
  have "objects c1 = filter (\<lambda>obj. fst obj \<notin> set batch) (objects c)" by simp
  with Cons.IH [OF r] show ?case
    by (auto intro: filter_cong)
qed

lemma deleteBatches_only:
  "deleteBatches c split = (r, c') \<Longrightarrow>
     set (objects c') \<subseteq> set (objects c) \<and>
     (\<forall>obj\<in>set (objects c). obj \<in> set (objects c') \<or> fst obj \<in> set (concat split))"
proof (induction split arbitrary: c)
  case Nil
  then show ?case by simp
next
  case (Cons batch split)
  obtain r1 c1 where d: "DeleteObjects c batch = (r1, c1)"
    by (cases "DeleteObjects c batch")
  show ?case
  proof (cases r1)
    case (Some err)
    with d Cons.prems have "c' = c1" by simp
    with DeleteObjects_cases [OF d] Some show ?thesis by simp
  next
    case None
    with d Cons.prems have r: "deleteBatches c1 split = (r, c')" by simp
    from DeleteObjects_cases [OF d] None
    have o: "objects c1 = filter (\<lambda>obj. fst obj \<notin> set batch) (objects c)" by simp
    from Cons.IH [OF r] show ?thesis
      unfolding o by auto blast
  qed
qed

lemma deleteDirectory_None:
  assumes "deleteDirectory goos c dir = (None, c')"
  shows "objects c' =
           filter (\<lambda>obj. fst obj \<notin> set (pageKeys c (directoryPrefix goos dir))) (objects c)"
proof -
  from assms obtain out c1 where
    l: "ListObjectsV2 c (directoryPrefix goos dir) None = (Inr out, c1)" and
    b: "deleteBatches c1 (lo_Chunk (Contents out) 1000) = (None, c')"
    by (auto simp: deleteDirectory_def split: prod.splits sum.splits)
  from ListObjectsV2_Inr [OF l] have "Contents out = pageKeys c (directoryPrefix goos dir)"
    by (simp add: contentKeys_listPage_None)
  with deleteBatches_None [OF b] ListObjectsV2_objects [OF l] show ?thesis
    by (simp add: concat_Chunk)
qed

lemma deleteDirectory_only:
  assumes "deleteDirectory goos c dir = (r, c')"
  shows "set (objects c') \<subseteq> set (objects c)"
    and "\<forall>obj\<in>set (objects c). obj \<in> set (objects c') \<or> prefix (directoryPrefix goos dir) (fst obj)"
proof -
  obtain lr c1 where l: "ListObjectsV2 c (directoryPrefix goos dir) None = (lr, c1)"
    by (cases "ListObjectsV2 c (directoryPrefix goos dir) None")
  have o1: "objects c1 = objects c"
    by (rule ListObjectsV2_objects [OF l])
  have "set (objects c') \<subseteq> set (objects c) \<and>
     (\<forall>obj\<in>set (objects c). obj \<in> set (objects c') \<or> prefix (directoryPrefix goos dir) (fst obj))"
  proof (cases lr)
    case (Inl err)
    with l assms have "c' = c1" by (simp add: deleteDirectory_def)
    with o1 show ?thesis by simp
  next
    case (Inr out)
    with l assms have b: "deleteBatches c1 (lo_Chunk (Contents out) 1000) = (r, c')"
      by (simp add: deleteDirectory_def)
    from ListObjectsV2_Inr [of c _ None out c1] l Inr
    have k: "Contents out = pageKeys c (directoryPrefix goos dir)"
      by (simp add: contentKeys_listPage_None)
    from deleteBatches_only [OF b] set_pageKeys_subset [of c "directoryPrefix goos dir"]
    show ?thesis
      unfolding o1 k by (auto simp: concat_Chunk)
  qed
  then show "set (objects c') \<subseteq> set (objects c)"
    and "\<forall>obj\<in>set (objects c). obj \<in> set (objects c') \<or> prefix (directoryPrefix goos dir) (fst obj)"
    by simp_all
qed

lemma deleteDirectory_all:
  assumes "deleteDirectory goos c dir = (None, c')"
    and "length (filter (prefix (directoryPrefix goos dir)) (map fst (objects c))) \<le> s3MaxKeys"
  shows "objects c' = filter (\<lambda>obj. \<not> prefix (directoryPrefix goos dir) (fst obj)) (objects c)"
proof -
  have "filter (\<lambda>obj. fst obj \<notin> set (pageKeys c (directoryPrefix goos dir))) (objects c)
      = filter (\<lambda>obj. \<not> prefix (directoryPrefix goos dir) (fst obj)) (objects c)"
    by (rule filter_cong) (auto simp: set_pageKeys_all [OF assms(2)])
  with deleteDirectory_None [OF assms(1)] show ?thesis by simp
qed

lemma deleteDirectory_no_failures:
  assumes "failures c = []"
  shows "fst (deleteDirectory goos c dir) = None \<and> failures (snd (deleteDirectory goos c dir)) = []"
proof -
  have b: "failures c1 = [] \<Longrightarrow>
      fst (deleteBatches c1 split) = None \<and> failures (snd (deleteBatches c1 split)) = []"
    for c1 split
    by (induction split arbitrary: c1)
       (auto simp: DeleteObjects_def request_no_failures split: prod.splits option.splits)
  show ?thesis
    using assms b by (simp add: deleteDirectory_def ListObjectsV2_def request_no_failures)
qed

subsection \<open>Retention, at the level of version numbers\<close>

lemma deleteTooNew_deleteVersions:
  "deleteTooNew goos c appName currentVer ignore versions =
     (case deleteVersions goos c appName (filter (\<lambda>v. currentVer < v) versions) of
        (Some err, c') \<Rightarrow> (Inl err, c')
      | (None, c') \<Rightarrow> (Inr (ignore @ filter (\<lambda>v. currentVer < v) versions), c'))"
proof (induction versions arbitrary: c ignore)
  case Nil
  then show ?case by simp
next
  case (Cons version rest)
  show ?case
  proof (cases "currentVer < version")
    case False
    with Cons.IH show ?thesis by (simp split: prod.splits option.splits)
  next
    case True
    obtain r c1 where d: "deleteDirectory goos c (versionDir appName version) = (r, c1)"
      by (cases "deleteDirectory goos c (versionDir appName version)")
    show ?thesis
    proof (cases r)
      case (Some err)
      with True d show ?thesis by simp
    next
      case None
      with True d Cons.IH [of c1 "ignore @ [version]"] show ?thesis
        by (simp split: prod.splits option.splits)
    qed
  qed
qed

lemma retentionCandidates_too_new:
  "retentionCandidates (filter (\<lambda>v. currentVer < v) versions) versions
     = lo_Uniq (sort (filter (\<lambda>v. v \<le> currentVer) versions))"
proof -
  have "filter (\<lambda>version. \<not> lo_Contains (filter (\<lambda>v. currentVer < v) versions) version) versions
      = filter (\<lambda>v. v \<le> currentVer) versions"
    by (rule filter_cong) (auto simp: lo_Contains_def)
  then show ?thesis by (simp add: retentionCandidates_def)
qed

lemma retentionCandidates_props:
  fixes currentVer :: int and versions :: "int list"
  defines "valid \<equiv> retentionCandidates (filter (\<lambda>v. currentVer < v) versions) versions"
  shows "sorted valid" and "distinct valid" and "set valid = {v \<in> set versions. v \<le> currentVer}"
  unfolding valid_def retentionCandidates_too_new
  by (auto intro: sorted_Uniq)

lemma oldVersions_props:
  fixes valid :: "int list"
  assumes "sorted valid" and "distinct valid"
  shows "valid = oldVersions valid @ drop (length (oldVersions valid)) valid"
    and "staticsKeepVersions < length valid \<Longrightarrow>
           length (drop (length (oldVersions valid)) valid) = staticsKeepVersions"
    and "length valid \<le> staticsKeepVersions \<Longrightarrow> oldVersions valid = []"
    and "\<forall>d\<in>set (oldVersions valid). \<forall>k\<in>set (drop (length (oldVersions valid)) valid). d < k"
proof -
  show a: "valid = oldVersions valid @ drop (length (oldVersions valid)) valid"
    by (simp add: oldVersions_def)
  show "staticsKeepVersions < length valid \<Longrightarrow>
           length (drop (length (oldVersions valid)) valid) = staticsKeepVersions"
    by (simp add: oldVersions_def)
  show "length valid \<le> staticsKeepVersions \<Longrightarrow> oldVersions valid = []"
    by (simp add: oldVersions_def)
  from assms a have "sorted (oldVersions valid @ drop (length (oldVersions valid)) valid)"
    and "distinct (oldVersions valid @ drop (length (oldVersions valid)) valid)"
    by simp_all
  then show "\<forall>d\<in>set (oldVersions valid). \<forall>k\<in>set (drop (length (oldVersions valid)) valid). d < k"
    unfolding sorted_append distinct_append
    by (metis IntI empty_iff order_le_less)
qed

lemma deleteOldStatics_unfold:
  assumes "listVersions c appName = (Inr versions, c1)"
  shows "deleteOldStatics goos c appName currentVer =
     (case deleteVersions goos c1 appName (filter (\<lambda>v. currentVer < v) versions) of
        (Some err, c2) \<Rightarrow> (Some err, c2)
      | (None, c2) \<Rightarrow>
          deleteVersions goos c2 appName
            (oldVersions (retentionCandidates (filter (\<lambda>v. currentVer < v) versions) versions)))"
  using assms
  by (simp add: deleteOldStatics_def deleteTooNew_deleteVersions split: prod.splits option.splits)

lemma deleteOldStatics_None:
  assumes "deleteOldStatics goos c appName currentVer = (None, c')"
  shows "\<exists>versions c1 c2.
           listVersions c appName = (Inr versions, c1)
         \<and> deleteVersions goos c1 appName (filter (\<lambda>v. currentVer < v) versions) = (None, c2)
         \<and> deleteVersions goos c2 appName
             (oldVersions (retentionCandidates (filter (\<lambda>v. currentVer < v) versions) versions))
             = (None, c')"
proof -
  obtain lr c1 where l: "listVersions c appName = (lr, c1)"
    by (cases "listVersions c appName")
  show ?thesis
  proof (cases lr)
    case (Inl err)
    with l assms show ?thesis by (simp add: deleteOldStatics_def)
  next
    case (Inr versions)
    with l have l': "listVersions c appName = (Inr versions, c1)" by simp
    obtain r c2 where d: "deleteVersions goos c1 appName (filter (\<lambda>v. currentVer < v) versions) = (r, c2)"
      by (cases "deleteVersions goos c1 appName (filter (\<lambda>v. currentVer < v) versions)")
    from assms d have "r = None"
      unfolding deleteOldStatics_unfold [OF l'] by (cases r) auto
    with assms d l' show ?thesis
      unfolding deleteOldStatics_unfold [OF l'] by auto
  qed
qed

subsection \<open>Decimal rendering\<close>

lemma digit_char_mem: "d < 10 \<Longrightarrow> ''0123456789'' ! d \<in> set ''0123456789''"
  by (rule nth_mem) simp

lemma set_digits: "set (digits n) \<subseteq> set ''0123456789''"
proof (induction n rule: digits.induct)
  case (1 n)
  show ?case
  proof (cases "n < 10")
    case True
    then show ?thesis
      using digit_char_mem [of n] by (subst digits.simps) simp
  next
    case False
    with 1 digit_char_mem [of "n mod 10"] show ?thesis
      by (subst digits.simps) simp
  qed
qed

lemma digits_not_Nil [simp]: "digits n \<noteq> []"
  by (subst digits.simps) simp

lemma digitVal_digit_char: "d < 10 \<Longrightarrow> digitVal (''0123456789'' ! d) = d"
proof -
  assume "d < 10"
  then have "d \<in> {0, 1, 2, 3, 4, 5, 6, 7, 8, 9}" by auto
  then show ?thesis
    by (auto simp: digitVal_def)
qed

lemma digitsVal_append: "digitsVal acc (xs @ ys) = digitsVal (digitsVal acc xs) ys"
  by (induction xs arbitrary: acc) auto

lemma digitsVal_digits: "digitsVal 0 (digits n) = n"
proof (induction n rule: digits.induct)
  case (1 n)
  show ?case
  proof (cases "n < 10")
    case True
    then show ?thesis
      by (subst digits.simps) (simp add: digitVal_digit_char)
  next
    case False
    with 1 show ?thesis
      by (subst digits.simps) (simp add: digitsVal_append digitVal_digit_char)
  qed
qed

lemma digits_inj: "digits m = digits n \<Longrightarrow> m = n"
  by (metis digitsVal_digits)

lemma minus_not_in_digits: "CHR ''-'' \<notin> set (digits n)"
proof -
  have "CHR ''-'' \<notin> set ''0123456789''" by simp
  with set_digits [of n] show ?thesis by blast
qed

lemma Itoa_inj: "Itoa v = Itoa w \<Longrightarrow> v = w"
proof -
  assume eq: "Itoa v = Itoa w"
  have hd_digits: "hd (digits n) \<noteq> CHR ''-''" for n
    using minus_not_in_digits [of n] digits_not_Nil [of n] by (metis list.set_sel(1))
  show ?thesis
  proof (cases "v < 0"; cases "w < 0")
    assume "v < 0" "w < 0"
    with eq have "nat (- v) = nat (- w)" by (auto simp: Itoa_def dest: digits_inj)
    with \<open>v < 0\<close> \<open>w < 0\<close> show ?thesis by simp
  next
    assume "v < 0" "\<not> w < 0"
    with eq have "CHR ''-'' # digits (nat (- v)) = digits (nat w)" by (simp add: Itoa_def)
    then have "hd (digits (nat w)) = CHR ''-''" by (metis list.sel(1))
    with hd_digits show ?thesis by simp
  next
    assume "\<not> v < 0" "w < 0"
    with eq have "digits (nat v) = CHR ''-'' # digits (nat (- w))" by (simp add: Itoa_def)
    then have "hd (digits (nat v)) = CHR ''-''" by (metis list.sel(1))
    with hd_digits show ?thesis by simp
  next
    assume "\<not> v < 0" "\<not> w < 0"
    with eq have "nat v = nat w" by (auto simp: Itoa_def dest: digits_inj)
    with \<open>\<not> v < 0\<close> \<open>\<not> w < 0\<close> show ?thesis by simp
  qed
qed

lemma set_Itoa: "set (Itoa v) \<subseteq> set ''-0123456789''"
proof -
  have m: "set ''-0123456789'' = insert (CHR ''-'') (set ''0123456789'')"
    by (simp only: list.set)
  show ?thesis
  proof (cases "v < 0")
    case True
    then have "set (Itoa v) = insert (CHR ''-'') (set (digits (nat (- v))))"
      by (simp add: Itoa_def)
    with set_digits [of "nat (- v)"] show ?thesis
      unfolding m by blast
  next
    case False
    then have "set (Itoa v) = set (digits (nat v))"
      by (simp add: Itoa_def)
    with set_digits [of "nat v"] show ?thesis
      unfolding m by blast
  qed
qed

lemma slash_not_in_Itoa: "CHR ''/'' \<notin> set (Itoa v)"
proof -
  have "CHR ''/'' \<notin> set ''-0123456789''" by simp
  with set_Itoa [of v] show ?thesis by blast
qed

lemma backslash_not_in_Itoa: "backslash \<notin> set (Itoa v)"
proof -
  have "backslash \<notin> set ''-0123456789''" by (simp add: backslash_def)
  with set_Itoa [of v] show ?thesis by blast
qed

subsection \<open>Version directories do not overlap\<close>

lemma prefix_snoc_same:
  assumes "prefix (a @ [s]) (b @ s # rest)" and "s \<notin> set a" and "s \<notin> set b"
  shows "a = b"
proof -
  from assms(1) obtain zs where eq: "b @ s # rest = a @ s # zs"
    by (auto simp: prefix_def)
  have "takeWhile (\<lambda>x. x \<noteq> s) (a @ s # zs) = a"
    using assms(2) by (induction a) auto
  moreover have "takeWhile (\<lambda>x. x \<noteq> s) (b @ s # rest) = b"
    using assms(3) by (induction b) auto
  ultimately show ?thesis
    using eq by simp
qed

lemma versionDir_disjoint:
  assumes "prefix (versionDir appName v) k" and "prefix (versionDir appName w) k"
  shows "v = w"
proof -
  let ?A = "''fly-statics/'' @ appName @ ''/''"
  from assms obtain k' where k: "k = ?A @ k'"
    by (auto simp: versionDir_def prefix_def)
  from assms have pv: "prefix (Itoa v @ ''/'') k'" and pw: "prefix (Itoa w @ ''/'') k'"
    unfolding k versionDir_def by simp_all
  from pw obtain rest where k': "k' = Itoa w @ CHR ''/'' # rest"
    by (auto simp: prefix_def)
  from pv have "prefix (Itoa v @ [CHR ''/'']) (Itoa w @ CHR ''/'' # rest)"
    unfolding k' by simp
  then have "Itoa v = Itoa w"
    by (rule prefix_snoc_same) (rule slash_not_in_Itoa)+
  then show ?thesis by (rule Itoa_inj)
qed

lemma directoryPrefix_slash:
  "HasSuffix (directoryPrefix goos dir) ''/''"
  by (auto simp: directoryPrefix_def Let_def HasSuffix_def suffix_def)

lemma directoryPrefix_not_windows:
  "goos \<noteq> ''windows'' \<Longrightarrow>
     directoryPrefix goos dir = (if HasSuffix dir ''/'' then dir else dir @ ''/'')"
  by (simp add: directoryPrefix_def)

lemma ReplaceAll_absent: "old \<notin> set s \<Longrightarrow> ReplaceAll s old new = s"
  by (induction s) (auto simp: ReplaceAll_def)

lemma directoryPrefix_no_backslash:
  "goos = ''windows'' \<longrightarrow> backslash \<notin> set dir \<Longrightarrow>
     directoryPrefix goos dir = (if HasSuffix dir ''/'' then dir else dir @ ''/'')"
  by (auto simp: directoryPrefix_def ReplaceAll_absent)

lemma HasSuffix_slash: "HasSuffix s ''/'' \<longleftrightarrow> s \<noteq> [] \<and> last s = CHR ''/''"
proof (cases s rule: rev_cases)
  case Nil
  then show ?thesis by (simp add: HasSuffix_def)
next
  case (snoc ys y)
  then show ?thesis by (auto simp: HasSuffix_def suffix_def)
qed

lemma versionDir_versionPath: "versionDir appName v = versionPath appName v @ ''/''"
  by (simp add: versionDir_def versionPath_def)

lemma directoryPrefix_versionDir:
  assumes "goos = ''windows'' \<longrightarrow> backslash \<notin> set appName"
  shows "directoryPrefix goos (versionDir appName v) = versionDir appName v"
    and "directoryPrefix goos (versionPath appName v) = versionDir appName v"
proof -
  have "backslash \<notin> set ''fly-statics/''" and "backslash \<notin> set ''/''"
    by (simp_all add: backslash_def)
  with assms backslash_not_in_Itoa [of v]
  have nb: "goos = ''windows'' \<longrightarrow> backslash \<notin> set (versionPath appName v)"
    and nb': "goos = ''windows'' \<longrightarrow> backslash \<notin> set (versionDir appName v)"
    unfolding versionPath_def versionDir_def set_append by blast+
  have "Itoa v \<noteq> []" by (simp add: Itoa_def)
  then have "versionPath appName v \<noteq> []" and "last (versionPath appName v) = last (Itoa v)"
    unfolding versionPath_def by simp_all
  moreover have "last (Itoa v) \<noteq> CHR ''/''"
    using \<open>Itoa v \<noteq> []\<close> slash_not_in_Itoa [of v] by (metis last_in_set)
  ultimately have s2: "\<not> HasSuffix (versionPath appName v) ''/''"
    by (simp add: HasSuffix_slash)
  have s1: "HasSuffix (versionDir appName v) ''/''"
    by (simp add: HasSuffix_slash versionDir_versionPath)
  show "directoryPrefix goos (versionDir appName v) = versionDir appName v"
    using directoryPrefix_no_backslash [OF nb'] s1 by simp
  show "directoryPrefix goos (versionPath appName v) = versionDir appName v"
    using directoryPrefix_no_backslash [OF nb] s2 by (simp add: versionDir_versionPath)
qed

subsection \<open>Retention, at the level of objects\<close>

lemma keysUnder_filter_le:
  assumes "objects c1 = filter Q (objects c)"
  shows "length (keysUnder p c1) \<le> length (keysUnder p c)"
proof -
  have "length (filter P (map fst (filter Q os))) \<le> length (filter P (map fst os))"
    for P and os :: "(string \<times> s3_object) list"
    by (induction os) auto
  then show ?thesis
    unfolding keysUnder_def assms .
qed

lemma deleteVersions_all:
  assumes "deleteVersions goos c appName versions = (None, c')"
    and "\<forall>v\<in>set versions. length (keysUnder (versionDir appName v) c) \<le> s3MaxKeys"
    and "goos = ''windows'' \<longrightarrow> backslash \<notin> set appName"
  shows "objects c' = filter (\<lambda>obj. \<not> underVersions appName versions (fst obj)) (objects c)"
  using assms(1,2)
proof (induction versions arbitrary: c)
  case Nil
  then show ?case by (simp add: underVersions_def)
next
  case (Cons v rest)
  from Cons.prems(1) obtain c1 where
    d: "deleteDirectory goos c (versionDir appName v) = (None, c1)" and
    r: "deleteVersions goos c1 appName rest = (None, c')"
    by (auto split: prod.splits option.splits)
  have p: "directoryPrefix goos (versionDir appName v) = versionDir appName v"
    by (rule directoryPrefix_versionDir [OF assms(3)])
  from Cons.prems(2)
  have "length (filter (prefix (versionDir appName v)) (map fst (objects c))) \<le> s3MaxKeys"
    by (simp add: keysUnder_def del: filter_map)
  with deleteDirectory_all [OF d] p
  have o1: "objects c1 = filter (\<lambda>obj. \<not> prefix (versionDir appName v) (fst obj)) (objects c)"
    by simp
  have "\<forall>w\<in>set rest. length (keysUnder (versionDir appName w) c1) \<le> s3MaxKeys"
  proof
    fix w assume "w \<in> set rest"
    with Cons.prems(2) have "length (keysUnder (versionDir appName w) c) \<le> s3MaxKeys"
      by simp
    with keysUnder_filter_le [OF o1, of "versionDir appName w"]
    show "length (keysUnder (versionDir appName w) c1) \<le> s3MaxKeys"
      by simp
  qed
  from Cons.IH [OF r this] show ?case
    unfolding o1 by (auto simp: underVersions_def intro: filter_cong)
qed

lemma underVersions_append:
  "underVersions appName (xs @ ys) k \<longleftrightarrow> underVersions appName xs k \<or> underVersions appName ys k"
  by (simp add: underVersions_def)

lemma deleteVersions_shrinks:
  "deleteVersions goos c appName versions = (r, c') \<Longrightarrow> set (objects c') \<subseteq> set (objects c)"
proof (induction versions arbitrary: c)
  case Nil
  then show ?case by simp
next
  case (Cons v rest)
  obtain r1 c1 where d: "deleteDirectory goos c (versionDir appName v) = (r1, c1)"
    by (cases "deleteDirectory goos c (versionDir appName v)")
  show ?case
  proof (cases r1)
    case (Some err)
    with d Cons.prems deleteDirectory_only(1) [OF d] show ?thesis by simp
  next
    case None
    with d Cons.prems have "deleteVersions goos c1 appName rest = (r, c')" by simp
    from Cons.IH [OF this] deleteDirectory_only(1) [OF d] show ?thesis by blast
  qed
qed

lemma listVersions_objects: "listVersions c appName = (r, c1) \<Longrightarrow> objects c1 = objects c"
  by (auto simp: listVersions_def split: prod.splits sum.splits dest: ListObjectsV2_objects)

text \<open>
  What a run of \<^verbatim>\<open>deleteOldStatics\<close> that returns no error has done: it has listed the
  versions, deleted the directory of every listed version above the current one, and
  then deleted the directories of the versions \<open>old\<close>, where \<open>valid\<close> is the remaining
  listed versions in ascending order, each once, and \<open>old\<close> is \<open>valid\<close> without its last
  three. When the directory of each listed version holds no more than one listing page,
  the objects left are exactly those outside the deleted directories.
\<close>

lemma deleteOldStatics_retention:
  assumes "deleteOldStatics goos c appName currentVer = (None, c')"
  shows "\<exists>versions c1 c2.
      listVersions c appName = (Inr versions, c1)
    \<and> deleteVersions goos c1 appName (filter (\<lambda>v. currentVer < v) versions) = (None, c2)
    \<and> (let valid = retentionCandidates (filter (\<lambda>v. currentVer < v) versions) versions;
           old = oldVersions valid;
           kept = drop (length old) valid
       in deleteVersions goos c2 appName old = (None, c')
        \<and> sorted valid \<and> distinct valid \<and> set valid = {v \<in> set versions. v \<le> currentVer}
        \<and> valid = old @ kept
        \<and> (staticsKeepVersions < length valid \<longrightarrow> length kept = staticsKeepVersions)
        \<and> (length valid \<le> staticsKeepVersions \<longrightarrow> old = [])
        \<and> (\<forall>d\<in>set old. \<forall>k\<in>set kept. d < k)
        \<and> ((\<forall>v\<in>set versions. length (keysUnder (versionDir appName v) c) \<le> s3MaxKeys)
             \<and> (goos = ''windows'' \<longrightarrow> backslash \<notin> set appName) \<longrightarrow>
             objects c' =
               filter (\<lambda>obj. \<not> underVersions appName
                                  (filter (\<lambda>v. currentVer < v) versions @ old) (fst obj))
                 (objects c)))"
proof -
  from deleteOldStatics_None [OF assms] obtain versions c1 c2 where
    l: "listVersions c appName = (Inr versions, c1)" and
    d1: "deleteVersions goos c1 appName (filter (\<lambda>v. currentVer < v) versions) = (None, c2)" and
    d2: "deleteVersions goos c2 appName
           (oldVersions (retentionCandidates (filter (\<lambda>v. currentVer < v) versions) versions))
         = (None, c')"
    by blast
  define valid where "valid = retentionCandidates (filter (\<lambda>v. currentVer < v) versions) versions"
  define old where "old = oldVersions valid"
  define kept where "kept = drop (length old) valid"
  have s: "sorted valid" and di: "distinct valid"
    and sv: "set valid = {v \<in> set versions. v \<le> currentVer}"
    unfolding valid_def by (rule retentionCandidates_props)+
  note op = oldVersions_props [OF s di]
  have obj: "objects c' =
               filter (\<lambda>obj. \<not> underVersions appName
                                  (filter (\<lambda>v. currentVer < v) versions @ old) (fst obj))
                 (objects c)"
    if len: "\<forall>v\<in>set versions. length (keysUnder (versionDir appName v) c) \<le> s3MaxKeys"
      and win: "goos = ''windows'' \<longrightarrow> backslash \<notin> set appName"
  proof -
    have o1: "objects c1 = objects c" by (rule listVersions_objects [OF l])
    then have k1: "keysUnder p c1 = keysUnder p c" for p
      by (simp add: keysUnder_def)
    from len have len1: "\<forall>v\<in>set (filter (\<lambda>v. currentVer < v) versions).
        length (keysUnder (versionDir appName v) c1) \<le> s3MaxKeys"
      unfolding k1 by simp
    from deleteVersions_all [OF d1 len1 win]
    have o2: "objects c2 = filter (\<lambda>obj. \<not> underVersions appName
                 (filter (\<lambda>v. currentVer < v) versions) (fst obj)) (objects c)"
      unfolding o1 .
    have "set old \<subseteq> set versions"
    proof -
      have "set old \<subseteq> set valid"
        unfolding old_def oldVersions_def by (auto dest: in_set_takeD)
      with sv show ?thesis by blast
    qed
    with len have "\<forall>v\<in>set old. length (keysUnder (versionDir appName v) c) \<le> s3MaxKeys"
      by blast
    with keysUnder_filter_le [OF o2]
    have len2: "\<forall>v\<in>set old. length (keysUnder (versionDir appName v) c2) \<le> s3MaxKeys"
      by (meson order_trans)
    from d2 have d2': "deleteVersions goos c2 appName old = (None, c')"
      by (simp add: old_def valid_def)
    from deleteVersions_all [OF d2' len2 win] show ?thesis
      unfolding o2 by (auto simp: underVersions_append intro: filter_cong)
  qed
  from d2 have d2': "deleteVersions goos c2 appName old = (None, c')"
    by (simp add: old_def valid_def)
  have "deleteVersions goos c2 appName old = (None, c')
        \<and> sorted valid \<and> distinct valid \<and> set valid = {v \<in> set versions. v \<le> currentVer}
        \<and> valid = old @ kept
        \<and> (staticsKeepVersions < length valid \<longrightarrow> length kept = staticsKeepVersions)
        \<and> (length valid \<le> staticsKeepVersions \<longrightarrow> old = [])
        \<and> (\<forall>d\<in>set old. \<forall>k\<in>set kept. d < k)
        \<and> ((\<forall>v\<in>set versions. length (keysUnder (versionDir appName v) c) \<le> s3MaxKeys)
             \<and> (goos = ''windows'' \<longrightarrow> backslash \<notin> set appName) \<longrightarrow>
             objects c' =
               filter (\<lambda>obj. \<not> underVersions appName
                                  (filter (\<lambda>v. currentVer < v) versions @ old) (fst obj))
                 (objects c))"
    using d2' s di sv op obj unfolding old_def [symmetric] kept_def [symmetric]
    by blast
  note big = this [unfolded kept_def old_def valid_def]
  show ?thesis
    unfolding Let_def using l d1 big by blast
qed

lemma example_retention_run:
  "deleteOldStatics ''linux'' (example_versions [1, 2, 3, 4, 5, 6, 7]) ''my-app'' 7
     = (None, example_versions [5, 6, 7])"
  by code_simp

lemma example_retention_listing:
  "listVersions (example_versions [1, 2, 3, 4, 5, 6, 7]) ''my-app''
     = (Inr [1, 2, 3, 4, 5, 6, 7], example_versions [1, 2, 3, 4, 5, 6, 7])"
  by code_simp

lemma example_too_new_run:
  "deleteOldStatics ''linux'' (example_versions [1, 2, 10]) ''my-app'' 3
     = (None, example_versions [1, 2])"
  by code_simp

lemma example_too_new_listing:
  "listVersions (example_versions [1, 2, 10]) ''my-app''
     = (Inr [1, 10, 2], example_versions [1, 2, 10])"
  by code_simp

lemma example_delete_version_1:
  "deleteDirectory ''linux'' (example_versions [1, 10, 2]) (versionPath ''my-app'' 1)
     = (None, example_versions [10, 2])"
  by code_simp

lemma example_retention:
  "deleteOldStatics ''linux'' (example_versions [1, 2, 3, 4, 5, 6, 7]) ''my-app'' 7
     = (None, example_versions [5, 6, 7])
   \<and> listVersions (example_versions [1, 2, 3, 4, 5, 6, 7]) ''my-app''
     = (Inr [1, 2, 3, 4, 5, 6, 7], example_versions [1, 2, 3, 4, 5, 6, 7])
   \<and> oldVersions (retentionCandidates (filter (\<lambda>v. 7 < v) [1, 2, 3, 4, 5, 6, 7]) [1, 2, 3, 4, 5, 6, 7])
     = [1, 2, 3, 4]
   \<and> objects (example_versions [5, 6, 7])
     = filter (\<lambda>obj. \<not> underVersions ''my-app'' [1, 2, 3, 4] (fst obj))
         (objects (example_versions [1, 2, 3, 4, 5, 6, 7]))"
proof -
  note run = example_retention_run
  from deleteOldStatics_retention [OF run]
  obtain versions c1 c2 where
    l: "listVersions (example_versions [1, 2, 3, 4, 5, 6, 7]) ''my-app'' = (Inr versions, c1)" and
    o: "(\<forall>v\<in>set versions.
            length (keysUnder (versionDir ''my-app'' v) (example_versions [1, 2, 3, 4, 5, 6, 7]))
              \<le> s3MaxKeys)
          \<and> (''linux'' = ''windows'' \<longrightarrow> backslash \<notin> set ''my-app'') \<longrightarrow>
        objects (example_versions [5, 6, 7])
          = filter (\<lambda>obj. \<not> underVersions ''my-app''
                (filter (\<lambda>v. 7 < v) versions
                  @ oldVersions (retentionCandidates (filter (\<lambda>v. 7 < v) versions) versions))
                (fst obj))
              (objects (example_versions [1, 2, 3, 4, 5, 6, 7]))"
    unfolding Let_def by blast
  from l have v: "versions = [1, 2, 3, 4, 5, 6, 7]"
    unfolding example_retention_listing by simp
  have old: "oldVersions (retentionCandidates (filter (\<lambda>v. 7 < v) [1, 2, 3, 4, 5, 6, 7])
               [1, 2, 3, 4, 5, 6, 7]) = [1, 2, 3, 4 :: int]"
    by code_simp
  have "length (keysUnder p (example_versions [1, 2, 3, 4, 5, 6, 7])) \<le> s3MaxKeys" for p
  proof -
    have "length (keysUnder p (example_versions [1, 2, 3, 4, 5, 6, 7]))
            \<le> length (map fst (objects (example_versions [1, 2, 3, 4, 5, 6, 7])))"
      unfolding keysUnder_def by (rule length_filter_le)
    also have "\<dots> \<le> s3MaxKeys"
      by (simp add: example_versions_def s3MaxKeys_def)
    finally show ?thesis .
  qed
  then have len: "\<forall>v\<in>set versions.
      length (keysUnder (versionDir ''my-app'' v) (example_versions [1, 2, 3, 4, 5, 6, 7]))
        \<le> s3MaxKeys"
    by simp
  from o len have "objects (example_versions [5, 6, 7])
     = filter (\<lambda>obj. \<not> underVersions ''my-app'' [1, 2, 3, 4] (fst obj))
         (objects (example_versions [1, 2, 3, 4, 5, 6, 7]))"
    unfolding v old by simp
  with run example_retention_listing old show ?thesis by blast
qed

text \<open>
  Directories whose names \<^verbatim>\<open>strconv.Atoi\<close> reads as versions but \<^verbatim>\<open>%d\<close> does not write:
  the versions are listed, chosen for deletion, and the directories named by their
  numbers are deleted, which are not the directories listed. Of the seven versions 1 to
  7 all are left at current version 7, and version 10 is left at current version 3.
\<close>

lemma example_padded_versions:
  "listVersions padded_versions ''my-app'' = (Inr [1, 2, 3, 4, 5, 6, 7], padded_versions)
   \<and> deleteOldStatics ''linux'' padded_versions ''my-app'' 7 = (None, padded_versions)"
  by code_simp

lemma example_padded_newer_version:
  "listVersions padded_newer_version ''my-app'' = (Inr [10, 1, 2], padded_newer_version)
   \<and> deleteOldStatics ''linux'' padded_newer_version ''my-app'' 3 = (None, padded_newer_version)"
  by code_simp

text \<open>
  The deletions of the versions above the current one come first and do not depend on
  the number of versions kept; the candidates for retention are the listed versions not
  above the current one. When the directory of each listed version holds no more than
  one listing page, no key is left under the directory of a version above the current
  one.
\<close>

lemma deleteOldStatics_too_new:
  assumes "listVersions c appName = (Inr versions, c1)"
  shows "deleteOldStatics goos c appName currentVer =
           (case deleteVersions goos c1 appName (filter (\<lambda>v. currentVer < v) versions) of
              (Some err, c2) \<Rightarrow> (Some err, c2)
            | (None, c2) \<Rightarrow>
                deleteVersions goos c2 appName
                  (oldVersions (retentionCandidates (filter (\<lambda>v. currentVer < v) versions) versions)))
       \<and> set (retentionCandidates (filter (\<lambda>v. currentVer < v) versions) versions)
           = {v \<in> set versions. v \<le> currentVer}
       \<and> (deleteOldStatics goos c appName currentVer = (None, c')
            \<and> (\<forall>v\<in>set versions. length (keysUnder (versionDir appName v) c) \<le> s3MaxKeys)
            \<and> (goos = ''windows'' \<longrightarrow> backslash \<notin> set appName)
          \<longrightarrow> (\<forall>v\<in>set versions. currentVer < v \<longrightarrow> keysUnder (versionDir appName v) c' = []))"
proof (intro conjI impI)
  show "deleteOldStatics goos c appName currentVer =
           (case deleteVersions goos c1 appName (filter (\<lambda>v. currentVer < v) versions) of
              (Some err, c2) \<Rightarrow> (Some err, c2)
            | (None, c2) \<Rightarrow>
                deleteVersions goos c2 appName
                  (oldVersions (retentionCandidates (filter (\<lambda>v. currentVer < v) versions) versions)))"
    by (rule deleteOldStatics_unfold [OF assms])
  show "set (retentionCandidates (filter (\<lambda>v. currentVer < v) versions) versions)
           = {v \<in> set versions. v \<le> currentVer}"
    by (rule retentionCandidates_props)
  assume a: "deleteOldStatics goos c appName currentVer = (None, c')
            \<and> (\<forall>v\<in>set versions. length (keysUnder (versionDir appName v) c) \<le> s3MaxKeys)
            \<and> (goos = ''windows'' \<longrightarrow> backslash \<notin> set appName)"
  from deleteOldStatics_None [of goos c appName currentVer c'] a assms obtain c2 where
    d1: "deleteVersions goos c1 appName (filter (\<lambda>v. currentVer < v) versions) = (None, c2)" and
    d2: "deleteVersions goos c2 appName
           (oldVersions (retentionCandidates (filter (\<lambda>v. currentVer < v) versions) versions))
         = (None, c')"
    by auto
  have "objects c1 = objects c" by (rule listVersions_objects [OF assms])
  then have "keysUnder p c1 = keysUnder p c" for p
    by (simp add: keysUnder_def)
  with a have len1: "\<forall>v\<in>set (filter (\<lambda>v. currentVer < v) versions).
      length (keysUnder (versionDir appName v) c1) \<le> s3MaxKeys"
    by simp
  from a have win: "goos = ''windows'' \<longrightarrow> backslash \<notin> set appName" by simp
  note o2 = deleteVersions_all [OF d1 len1 win]
  note sub = deleteVersions_shrinks [OF d2]
  show "\<forall>v\<in>set versions. currentVer < v \<longrightarrow> keysUnder (versionDir appName v) c' = []"
  proof (intro ballI impI)
    fix v assume v: "v \<in> set versions" "currentVer < v"
    have "\<not> prefix (versionDir appName v) (fst obj)" if "obj \<in> set (objects c')" for obj
    proof -
      from that sub have "obj \<in> set (objects c2)" by blast
      then have "\<not> underVersions appName (filter (\<lambda>v. currentVer < v) versions) (fst obj)"
        unfolding o2 by simp
      with v show ?thesis
        by (auto simp: underVersions_def list_ex_iff)
    qed
    then show "keysUnder (versionDir appName v) c' = []"
      by (auto simp: keysUnder_def filter_empty_conv)
  qed
qed

lemma example_too_new:
  "listVersions (example_versions [1, 2, 10]) ''my-app''
     = (Inr [1, 10, 2], example_versions [1, 2, 10])
   \<and> deleteOldStatics ''linux'' (example_versions [1, 2, 10]) ''my-app'' 3
     = (None, example_versions [1, 2])
   \<and> set (retentionCandidates (filter (\<lambda>v. 3 < v) [1, 10, 2]) [1, 10, 2]) = {1, 2}
   \<and> keysUnder (versionDir ''my-app'' 10) (example_versions [1, 2]) = []"
proof -
  note t = deleteOldStatics_too_new
             [OF example_too_new_listing, of "''linux''" 3 "example_versions [1, 2]"]
  have "length (keysUnder p (example_versions [1, 2, 10])) \<le> s3MaxKeys" for p
  proof -
    have "length (keysUnder p (example_versions [1, 2, 10]))
            \<le> length (map fst (objects (example_versions [1, 2, 10])))"
      unfolding keysUnder_def by (rule length_filter_le)
    also have "\<dots> \<le> s3MaxKeys"
      by (simp add: example_versions_def s3MaxKeys_def)
    finally show ?thesis .
  qed
  then have len: "\<forall>v\<in>set [1, 10, 2].
      length (keysUnder (versionDir ''my-app'' v) (example_versions [1, 2, 10])) \<le> s3MaxKeys"
    by simp
  from t have "set (retentionCandidates (filter (\<lambda>v. 3 < v) [1, 10, 2]) [1, 10, 2])
                 = {v \<in> set [1, 10, 2]. v \<le> (3::int)}"
    by blast
  moreover have "{v \<in> set [1, 10, 2]. v \<le> (3::int)} = {1, 2}"
    by auto
  moreover from t example_too_new_run len
  have "keysUnder (versionDir ''my-app'' 10) (example_versions [1, 2]) = []"
    by simp
  ultimately show ?thesis
    using example_too_new_listing example_too_new_run by simp
qed

subsection \<open>Deleting one version directory\<close>

lemma ReplaceAll_append: "ReplaceAll (xs @ ys) old new = ReplaceAll xs old new @ ReplaceAll ys old new"
  by (simp add: ReplaceAll_def)

lemma length_ReplaceAll [simp]: "length (ReplaceAll s old new) = length s"
  by (simp add: ReplaceAll_def)

lemma directoryPrefix_version_windows:
  assumes "dir = versionPath appName n \<or> dir = versionDir appName n"
  shows "\<exists>appName'. length appName' = length appName
           \<and> directoryPrefix goos dir = versionDir appName' n"
proof (cases "goos = ''windows''")
  case False
  then have "goos = ''windows'' \<longrightarrow> backslash \<notin> set appName" by simp
  from directoryPrefix_versionDir [OF this] assms show ?thesis by metis
next
  case True
  let ?app = "ReplaceAll appName backslash (CHR ''/'')"
  have fs: "ReplaceAll ''fly-statics/'' backslash (CHR ''/'') = ''fly-statics/''"
    and sl: "ReplaceAll ''/'' backslash (CHR ''/'') = ''/''"
    by (simp_all add: ReplaceAll_def backslash_def)
  have it: "ReplaceAll (Itoa n) backslash (CHR ''/'') = Itoa n"
    by (rule ReplaceAll_absent) (rule backslash_not_in_Itoa)
  have p: "ReplaceAll (versionPath appName n) backslash (CHR ''/'') = versionPath ?app n"
    unfolding versionPath_def ReplaceAll_append fs sl it ..
  have d: "ReplaceAll (versionDir appName n) backslash (CHR ''/'') = versionDir ?app n"
    unfolding versionDir_versionPath ReplaceAll_append p sl ..
  have "Itoa n \<noteq> []" by (simp add: Itoa_def)
  then have "versionPath ?app n \<noteq> []" and "last (versionPath ?app n) = last (Itoa n)"
    unfolding versionPath_def by simp_all
  moreover have "last (Itoa n) \<noteq> CHR ''/''"
    using \<open>Itoa n \<noteq> []\<close> slash_not_in_Itoa [of n] by (metis last_in_set)
  ultimately have s2: "\<not> HasSuffix (versionPath ?app n) ''/''"
    by (simp add: HasSuffix_slash)
  have s1: "HasSuffix (versionDir ?app n) ''/''"
    by (simp add: HasSuffix_slash versionDir_versionPath)
  from assms have "directoryPrefix goos dir = versionDir ?app n"
  proof
    assume "dir = versionPath appName n"
    with True p s2 show ?thesis
      by (simp add: directoryPrefix_def versionDir_versionPath)
  next
    assume "dir = versionDir appName n"
    with True d s1 show ?thesis
      by (simp add: directoryPrefix_def)
  qed
  then show ?thesis
    by (intro exI [of _ ?app]) simp
qed

lemma versionDir_disjoint_apps:
  assumes "prefix (versionDir a v) k" and "prefix (versionDir b w) k" and "length a = length b"
  shows "v = w"
proof -
  from assms(1) obtain r1 where k1: "k = ''fly-statics/'' @ a @ (''/'' @ Itoa v @ ''/'' @ r1)"
    by (auto simp: versionDir_def prefix_def)
  from assms(2) obtain r2 where k2: "k = ''fly-statics/'' @ b @ (''/'' @ Itoa w @ ''/'' @ r2)"
    by (auto simp: versionDir_def prefix_def)
  from k1 k2 have "a @ (''/'' @ Itoa v @ ''/'' @ r1) = b @ (''/'' @ Itoa w @ ''/'' @ r2)"
    by simp
  with assms(3) have "a = b" by (metis append_eq_append_conv)
  with assms(1,2) show ?thesis
    using versionDir_disjoint by blast
qed

text \<open>
  \<^verbatim>\<open>deleteDirectory\<close> lists and deletes under the directory name with a slash appended
  when it lacks one. Whatever the outcome, it deletes only objects whose keys begin with
  that prefix, so deleting the directory of version \<open>n\<close> never deletes an object of
  another version \<open>n'\<close>. When it returns no error and at most \<open>s3MaxKeys\<close> keys begin with
  the prefix, it deletes exactly the objects under the prefix.
\<close>

lemma deleteDirectory_within_prefix:
  assumes "deleteDirectory goos c dir = (r, c')"
  shows "HasSuffix (directoryPrefix goos dir) ''/''
       \<and> (goos \<noteq> ''windows'' \<longrightarrow>
            directoryPrefix goos dir = (if HasSuffix dir ''/'' then dir else dir @ ''/''))
       \<and> set (objects c') \<subseteq> set (objects c)
       \<and> (\<forall>obj\<in>set (objects c).
            obj \<in> set (objects c') \<or> prefix (directoryPrefix goos dir) (fst obj))
       \<and> (r = None \<and> length (keysUnder (directoryPrefix goos dir) c) \<le> s3MaxKeys \<longrightarrow>
            objects c' = filter (\<lambda>obj. \<not> prefix (directoryPrefix goos dir) (fst obj)) (objects c))
       \<and> ((dir = versionPath appName n \<or> dir = versionDir appName n) \<and> n \<noteq> n' \<longrightarrow>
            (\<forall>obj\<in>set (objects c).
               prefix (versionDir appName n') (fst obj) \<longrightarrow> obj \<in> set (objects c')))"
proof (intro conjI impI)
  show "HasSuffix (directoryPrefix goos dir) ''/''"
    by (rule directoryPrefix_slash)
  show "directoryPrefix goos dir = (if HasSuffix dir ''/'' then dir else dir @ ''/'')"
    if "goos \<noteq> ''windows''"
    using that by (rule directoryPrefix_not_windows)
  show "set (objects c') \<subseteq> set (objects c)"
    by (rule deleteDirectory_only(1) [OF assms])
  show only: "\<forall>obj\<in>set (objects c).
            obj \<in> set (objects c') \<or> prefix (directoryPrefix goos dir) (fst obj)"
    by (rule deleteDirectory_only(2) [OF assms])
  show "objects c' = filter (\<lambda>obj. \<not> prefix (directoryPrefix goos dir) (fst obj)) (objects c)"
    if "r = None \<and> length (keysUnder (directoryPrefix goos dir) c) \<le> s3MaxKeys"
    using that assms deleteDirectory_all [of goos c dir c']
    by (simp add: keysUnder_def)
  show "\<forall>obj\<in>set (objects c). prefix (versionDir appName n') (fst obj) \<longrightarrow> obj \<in> set (objects c')"
    if h: "(dir = versionPath appName n \<or> dir = versionDir appName n) \<and> n \<noteq> n'"
  proof (intro ballI impI)
    fix obj assume obj: "obj \<in> set (objects c)" and p: "prefix (versionDir appName n') (fst obj)"
    from h directoryPrefix_version_windows [of dir appName n goos] obtain appName' where
      len: "length appName' = length appName" and
      dp: "directoryPrefix goos dir = versionDir appName' n"
      by blast
    show "obj \<in> set (objects c')"
    proof (rule ccontr)
      assume "obj \<notin> set (objects c')"
      with only obj have "prefix (versionDir appName' n) (fst obj)"
        unfolding dp by blast
      from versionDir_disjoint_apps [OF this p len] h show False by simp
    qed
  qed
qed

lemma example_version_isolation:
  "deleteDirectory ''linux'' (example_versions [1, 10, 2]) (versionPath ''my-app'' 1)
     = (None, example_versions [10, 2])
   \<and> directoryPrefix ''linux'' (versionPath ''my-app'' 1) = ''fly-statics/my-app/1/''
   \<and> objects (example_versions [10, 2])
       = filter (\<lambda>obj. \<not> prefix ''fly-statics/my-app/1/'' (fst obj))
           (objects (example_versions [1, 10, 2]))
   \<and> (''fly-statics/my-app/10/0/index.html'', example_object)
       \<in> set (objects (example_versions [10, 2]))"
proof -
  note t = deleteDirectory_within_prefix
             [OF example_delete_version_1, of "''my-app''" 1 10]
  have dp: "directoryPrefix ''linux'' (versionPath ''my-app'' 1) = ''fly-statics/my-app/1/''"
    by code_simp
  have len: "length (keysUnder ''fly-statics/my-app/1/'' (example_versions [1, 10, 2])) \<le> s3MaxKeys"
    by (simp add: keysUnder_def example_versions_def s3MaxKeys_def)
  have mem: "(''fly-statics/my-app/10/0/index.html'', example_object)
               \<in> set (objects (example_versions [1, 10, 2]))"
    by code_simp
  have pre: "prefix (versionDir ''my-app'' 10) ''fly-statics/my-app/10/0/index.html''"
    by code_simp
  from t len have "objects (example_versions [10, 2])
       = filter (\<lambda>obj. \<not> prefix ''fly-statics/my-app/1/'' (fst obj))
           (objects (example_versions [1, 10, 2]))"
    unfolding dp by blast
  moreover from t mem pre
  have "(''fly-statics/my-app/10/0/index.html'', example_object)
          \<in> set (objects (example_versions [10, 2]))"
    by fastforce
  ultimately show ?thesis
    using example_delete_version_1 dp by blast
qed

subsection \<open>A directory larger than one listing page\<close>

lemma length_filter_not_in_take:
  assumes "distinct ks"
  shows "length (filter (\<lambda>k. k \<notin> set (take n (sort ks))) ks) = length ks - min n (length ks)"
proof -
  let ?T = "set (take n (sort ks))"
  have d: "distinct (take n (sort ks))"
    using assms by (simp add: distinct_take)
  have sub: "?T \<subseteq> set ks"
    using set_take_subset [of n "sort ks"] by simp
  have "length (filter (\<lambda>k. k \<notin> ?T) ks) = card {k \<in> set ks. k \<notin> ?T}"
    using assms by (simp add: distinct_length_filter Int_def conj_commute)
  also have "{k \<in> set ks. k \<notin> ?T} = set ks - ?T" by auto
  also have "card (set ks - ?T) = card (set ks) - card ?T"
    using sub by (simp add: card_Diff_subset)
  also have "card (set ks) = length ks"
    using assms by (rule distinct_card)
  also have "card ?T = length (take n (sort ks))"
    using d by (rule distinct_card)
  finally show ?thesis by (simp add: min.commute)
qed

text \<open>
  In a bucket whose keys are distinct, a run of \<^verbatim>\<open>deleteDirectory\<close> that returns no
  error leaves under the directory all keys but \<open>s3MaxKeys\<close> of them.
\<close>

lemma deleteDirectory_truncated:
  assumes "deleteDirectory goos c dir = (None, c')"
    and "distinct (map fst (objects c))"
  shows "length (keysUnder (directoryPrefix goos dir) c')
           = length (keysUnder (directoryPrefix goos dir) c)
               - min s3MaxKeys (length (keysUnder (directoryPrefix goos dir) c))"
proof -
  let ?P = "directoryPrefix goos dir"
  let ?K = "keysUnder ?P c"
  have dK: "distinct ?K"
    using assms(2) by (simp add: keysUnder_def del: filter_map)
  have pk: "pageKeys c ?P = take s3MaxKeys (sort ?K)"
    using dK by (simp add: pageKeys_def keysUnder_def Uniq_distinct del: filter_map)
  have g: "filter P (map fst (filter (\<lambda>obj. fst obj \<notin> S) os))
             = filter (\<lambda>k. k \<notin> S) (filter P (map fst os))"
    for P S and os :: "(string \<times> s3_object) list"
    by (induction os) auto
  have "keysUnder ?P c' = filter (\<lambda>k. k \<notin> set (pageKeys c ?P)) ?K"
    unfolding keysUnder_def deleteDirectory_None [OF assms(1)] by (rule g)
  then show ?thesis
    unfolding pk using length_filter_not_in_take [OF dK, of s3MaxKeys] by simp
qed

lemma many_objects_keys:
  "map fst (many_objects dir n) = map (\<lambda>i. dir @ replicate (Suc i) (CHR ''a'')) [0..<n]"
  by (simp add: many_objects_def comp_def)

lemma many_objects_under:
  "prefix p dir \<Longrightarrow> filter (prefix p) (map fst (many_objects dir n)) = map fst (many_objects dir n)"
  unfolding many_objects_keys by (rule filter_True) (auto simp: prefix_def)

lemma many_objects_distinct: "distinct (map fst (many_objects dir n))"
proof -
  have "inj_on (\<lambda>i. dir @ replicate (Suc i) (CHR ''a'')) (set [0..<n])"
  proof (rule inj_onI)
    fix i j
    assume "dir @ replicate (Suc i) (CHR ''a'') = dir @ replicate (Suc j) (CHR ''a'')"
    then have "length (replicate (Suc i) (CHR ''a'')) = length (replicate (Suc j) (CHR ''a''))"
      by (metis same_append_eq)
    then show "i = j" by simp
  qed
  then show ?thesis
    unfolding many_objects_keys by (simp add: distinct_map)
qed

lemma length_many_objects [simp]: "length (many_objects dir n) = n"
  by (simp add: many_objects_def)

subsection \<open>The first listing page of a directory in key order\<close>

lemma le_append_same: "(p @ xs \<le> p @ ys) = (xs \<le> ys)" for p :: "'a :: linorder list"
  by (induction p) simp_all

lemma le_append_right: "xs \<le> xs @ ys" for xs :: "'a :: linorder list"
  by (induction xs) simp_all

lemma replicate_le: "i \<le> j \<Longrightarrow> replicate i c \<le> replicate j c" for c :: "'a :: linorder"
proof -
  assume "i \<le> j"
  then have "replicate j c = replicate i c @ replicate (j - i) c"
    by (simp add: replicate_add [symmetric])
  then show ?thesis
    using le_append_right [of "replicate i c" "replicate (j - i) c"] by simp
qed

lemma many_objects_sorted: "sorted (map fst (many_objects dir n))"
proof -
  have "sorted_wrt (\<lambda>i j. dir @ replicate (Suc i) (CHR ''a'') \<le> dir @ replicate (Suc j) (CHR ''a''))
          [0..<n]"
  proof (rule sorted_wrt_mono_rel [OF _ sorted_wrt_upt])
    fix i j :: nat
    assume "i < j"
    then have "replicate (Suc i) (CHR ''a'') \<le> replicate (Suc j) (CHR ''a'')"
      by (intro replicate_le) simp
    then show "dir @ replicate (Suc i) (CHR ''a'') \<le> dir @ replicate (Suc j) (CHR ''a'')"
      by (simp only: le_append_same)
  qed
  then show ?thesis
    unfolding many_objects_keys by (simp only: sorted_map)
qed

lemma filter_not_in_take:
  assumes "distinct (map fst M)"
  shows "filter (\<lambda>obj. fst obj \<notin> set (map fst (take k M))) M = drop k M"
proof -
  let ?P = "\<lambda>obj. fst obj \<notin> set (map fst (take k M))"
  have "distinct (map fst (take k M) @ map fst (drop k M))"
    using assms by (simp only: map_append [symmetric] append_take_drop_id)
  then have disj: "set (map fst (take k M)) \<inter> set (map fst (drop k M)) = {}"
    by simp
  have a: "filter ?P (take k M) = []"
    by (simp add: filter_empty_conv)
  have b: "filter ?P (drop k M) = drop k M"
  proof (rule filter_True, rule ballI)
    fix obj assume "obj \<in> set (drop k M)"
    then have "fst obj \<in> set (map fst (drop k M))" by simp
    with disj show "fst obj \<notin> set (map fst (take k M))" by blast
  qed
  have "filter ?P M = filter ?P (take k M @ drop k M)"
    by simp
  also have "\<dots> = filter ?P (take k M) @ filter ?P (drop k M)"
    by (rule filter_append)
  finally show ?thesis
    unfolding a b by simp
qed

text \<open>
  A bucket without failing requests in which the objects under the directory stand
  together and in key order: \<^verbatim>\<open>deleteDirectory\<close> deletes the first \<open>s3MaxKeys\<close> of them
  and returns no error.
\<close>

lemma deleteDirectory_first_page:
  assumes f: "failures c = []"
    and o: "objects c = pre @ M @ post"
    and out: "\<forall>obj\<in>set pre \<union> set post. \<not> prefix (directoryPrefix goos dir) (fst obj)"
    and under: "\<forall>obj\<in>set M. prefix (directoryPrefix goos dir) (fst obj)"
    and s: "sorted (map fst M)"
    and d: "distinct (map fst M)"
  shows "deleteDirectory goos c dir = (None, c\<lparr>objects := pre @ drop s3MaxKeys M @ post\<rparr>)"
proof -
  let ?P = "directoryPrefix goos dir"
  let ?run = "deleteDirectory goos c dir"
  have fpre: "filter (prefix ?P) (map fst pre) = []"
    using out by (auto simp: filter_empty_conv)
  have fpost: "filter (prefix ?P) (map fst post) = []"
    using out by (auto simp: filter_empty_conv)
  have fM: "filter (prefix ?P) (map fst M) = map fst M"
    using under by (intro filter_True) auto
  have "filter (prefix ?P) (map fst (objects c)) = map fst M"
    unfolding o map_append filter_append fpre fpost fM by simp
  then have pk: "pageKeys c ?P = map fst (take s3MaxKeys M)"
    unfolding pageKeys_def by (simp only: sorted_sort_id [OF s] Uniq_distinct [OF d] take_map)
  from deleteDirectory_no_failures [OF f]
  have ok: "fst ?run = None" and f': "failures (snd ?run) = []"
    by simp_all
  from ok have run: "?run = (None, snd ?run)"
    by (metis prod.collapse)
  let ?Q = "\<lambda>obj. fst obj \<notin> set (map fst (take s3MaxKeys M))"
  have sub: "prefix ?P k" if "k \<in> set (map fst (take s3MaxKeys M))" for k
  proof -
    from that obtain obj where "obj \<in> set (take s3MaxKeys M)" and "k = fst obj"
      by auto
    with under in_set_takeD [of obj s3MaxKeys M] show ?thesis by blast
  qed
  have kept: "filter ?Q xs = xs" if "set xs \<subseteq> set pre \<union> set post" for xs
  proof (rule filter_True, rule ballI)
    fix obj assume "obj \<in> set xs"
    with that out have "\<not> prefix ?P (fst obj)" by blast
    with sub show "fst obj \<notin> set (map fst (take s3MaxKeys M))" by blast
  qed
  have "objects (snd ?run) = filter ?Q (pre @ M @ post)"
    using deleteDirectory_None [OF run] unfolding pk o .
  also have "\<dots> = filter ?Q pre @ filter ?Q M @ filter ?Q post"
    by simp
  also have "\<dots> = pre @ drop s3MaxKeys M @ post"
    using kept [of pre] kept [of post] filter_not_in_take [OF d, of s3MaxKeys] by simp
  finally have "snd ?run = c\<lparr>objects := pre @ drop s3MaxKeys M @ post\<rparr>"
    using f f' by (intro s3_bucket.equality) simp_all
  with run show ?thesis by simp
qed

lemma drop_many_objects:
  "drop s3MaxKeys (many_objects dir 1001) = [(dir @ replicate 1001 (CHR ''a''), example_object)]"
proof -
  have "[1000..<1001] = [1000 :: nat]"
    by (simp add: upt_rec)
  moreover have "CHR ''a'' # replicate 1000 (CHR ''a'') = replicate 1001 (CHR ''a'')"
    using replicate_Suc [of 1000 "CHR ''a''"] by simp
  ultimately show ?thesis
    by (simp add: many_objects_def s3MaxKeys_def drop_map drop_upt)
qed

subsection \<open>Listing the versions of a bucket in key order\<close>

lemma Uniq_append:
  "lo_Uniq (xs @ ys) = lo_Uniq xs @ filter (\<lambda>y. y \<notin> set xs) (lo_Uniq ys)"
proof (induction ys rule: rev_induct)
  case Nil
  then show ?case by simp
next
  case (snoc y ys)
  have "lo_Uniq (xs @ ys @ [y]) = lo_Uniq ((xs @ ys) @ [y])" by simp
  also have "\<dots> = (if y \<in> set (xs @ ys) then lo_Uniq (xs @ ys) else lo_Uniq (xs @ ys) @ [y])"
    unfolding Uniq_snoc by simp
  finally show ?case
    using snoc.IH by (auto simp: Uniq_snoc)
qed

lemma Uniq_replicate: "lo_Uniq (replicate (Suc n) x) = [x]"
proof (induction n)
  case 0
  then show ?case by (simp add: lo_Uniq_def)
next
  case (Suc n)
  have "replicate (Suc (Suc n)) x = replicate (Suc n) x @ [x]"
    by (simp add: replicate_append_same)
  then show ?case
    using Suc.IH by (simp only: Uniq_snoc) simp
qed

lemma listPage_sorted:
  assumes "sorted (map fst (objects c))"
    and "\<forall>obj\<in>set (objects c). prefix pfx (fst obj)"
  shows "listPage c pfx delimiter
           = take s3MaxKeys (lo_Uniq (map (listEntry pfx delimiter) (map fst (objects c))))"
proof -
  have "filter (prefix pfx) (map fst (objects c)) = map fst (objects c)"
    using assms(2) by (intro filter_True) auto
  then show ?thesis
    unfolding listPage_def by (simp only: sorted_sort_id [OF assms(1)])
qed

lemma listVersions_no_failures:
  "failures c = [] \<Longrightarrow>
     listVersions c appName
       = (Inr (lo_FilterMap parseVersion
                 (commonPrefixes (listPage c (''fly-statics/'' @ appName @ ''/'') (Some ''/'')))), c)"
  by (simp add: listVersions_def ListObjectsV2_def request_no_failures)

lemma many_objects_entries:
  assumes "\<And>name. listEntry pfx delimiter (dir @ name) = e"
  shows "map (listEntry pfx delimiter) (map fst (many_objects dir n)) = replicate n e"
  unfolding many_objects_keys map_map comp_def assms
  by (simp only: map_replicate_const length_upt diff_zero)

lemma many_objects_name: "obj \<in> set (many_objects dir n) \<Longrightarrow> \<exists>name. fst obj = dir @ name"
  by (auto simp: many_objects_def)

lemma Uniq_replicate_pos: "0 < n \<Longrightarrow> lo_Uniq (replicate n x) = [x]"
  using Uniq_replicate [of "n - 1" x] by simp

lemma deleteVersions_no_failures:
  "failures c = [] \<Longrightarrow>
     fst (deleteVersions goos c appName versions) = None
     \<and> failures (snd (deleteVersions goos c appName versions)) = []"
proof (induction versions arbitrary: c)
  case Nil
  then show ?case by simp
next
  case (Cons v rest)
  from deleteDirectory_no_failures [OF Cons.prems, of goos "versionDir appName v"]
  obtain c1 where d: "deleteDirectory goos c (versionDir appName v) = (None, c1)"
    and f1: "failures c1 = []"
    by (metis prod.collapse)
  from Cons.IH [OF f1] d show ?case by simp
qed

subsection \<open>Directories of 1001 objects\<close>

text \<open>
  C9. \<^verbatim>\<open>deleteDirectory\<close> appends a slash to a directory name that lacks one and deletes
  exactly the objects whose keys begin with the result. The slash and the separation of
  the versions are as claimed (\<open>deleteDirectory_within_prefix\<close>), but the code lists the
  directory once and never asks for the page after the first. Evaluated on the root of
  release 7 holding 1001 objects, which is the call of \<^verbatim>\<open>staticsCleanupAfterFailure\<close>: the
  slash is appended, 1000 objects are deleted, no error is returned, and the object with
  the greatest key is left, under the prefix.
\<close>

theorem oversized_directory_not_emptied:
  "directoryPrefix ''linux'' ''fly-statics/my-app/7'' = ''fly-statics/my-app/7/''
   \<and> length (keysUnder ''fly-statics/my-app/7/'' oversized_release) = 1001
   \<and> deleteDirectory ''linux'' oversized_release ''fly-statics/my-app/7''
       = (None,
          \<lparr>objects = [(''fly-statics/my-app/7/0/'' @ replicate 1001 (CHR ''a''), example_object)],
           failures = []\<rparr>)
   \<and> keysUnder ''fly-statics/my-app/7/''
        \<lparr>objects = [(''fly-statics/my-app/7/0/'' @ replicate 1001 (CHR ''a''), example_object)],
         failures = []\<rparr>
       = [''fly-statics/my-app/7/0/'' @ replicate 1001 (CHR ''a'')]"
proof -
  let ?M = "many_objects ''fly-statics/my-app/7/0/'' 1001"
  have dp: "directoryPrefix ''linux'' ''fly-statics/my-app/7'' = ''fly-statics/my-app/7/''"
    by code_simp
  have p: "prefix ''fly-statics/my-app/7/'' ''fly-statics/my-app/7/0/''"
    by simp
  from many_objects_under [OF p]
  have len: "length (keysUnder ''fly-statics/my-app/7/'' oversized_release) = 1001"
    by (simp add: keysUnder_def oversized_release_def)
  have f: "failures oversized_release = []"
    by (simp add: oversized_release_def)
  have o: "objects oversized_release = [] @ ?M @ []"
    by (simp add: oversized_release_def)
  have under: "\<forall>obj\<in>set ?M.
      prefix (directoryPrefix ''linux'' ''fly-statics/my-app/7'') (fst obj)"
    unfolding dp using many_objects_name by fastforce
  from deleteDirectory_first_page
         [OF f o _ under many_objects_sorted many_objects_distinct]
  have run: "deleteDirectory ''linux'' oversized_release ''fly-statics/my-app/7''
       = (None,
          \<lparr>objects = [(''fly-statics/my-app/7/0/'' @ replicate 1001 (CHR ''a''), example_object)],
           failures = []\<rparr>)"
    by (simp add: drop_many_objects oversized_release_def)
  have left: "keysUnder ''fly-statics/my-app/7/''
        \<lparr>objects = [(''fly-statics/my-app/7/0/'' @ replicate 1001 (CHR ''a''), example_object)],
         failures = []\<rparr>
       = [''fly-statics/my-app/7/0/'' @ replicate 1001 (CHR ''a'')]"
    by (simp add: keysUnder_def)
  from dp len run left show ?thesis
    by (intro conjI)
qed

subsection \<open>Retention with a version of 1001 objects\<close>

lemma oldest_version_sorted: "sorted (map fst (objects oversized_oldest_version))"
proof -
  have small: "map fst (objects (example_versions [2, 3, 4, 5, 6, 7]))
      = [''fly-statics/my-app/2/0/index.html'', ''fly-statics/my-app/3/0/index.html'',
         ''fly-statics/my-app/4/0/index.html'', ''fly-statics/my-app/5/0/index.html'',
         ''fly-statics/my-app/6/0/index.html'', ''fly-statics/my-app/7/0/index.html'']"
    by code_simp
  have s: "sorted (map fst (objects (example_versions [2, 3, 4, 5, 6, 7])))"
    by code_simp
  have cross: "''fly-statics/my-app/1/0/'' @ name \<le> k"
    if "k \<in> set (map fst (objects (example_versions [2, 3, 4, 5, 6, 7])))" for name k
    using that unfolding small by auto
  have "\<forall>x\<in>set (map fst (many_objects ''fly-statics/my-app/1/0/'' 1001)).
          \<forall>k\<in>set (map fst (objects (example_versions [2, 3, 4, 5, 6, 7]))). x \<le> k"
  proof (intro ballI)
    fix x k
    assume "x \<in> set (map fst (many_objects ''fly-statics/my-app/1/0/'' 1001))"
      and k: "k \<in> set (map fst (objects (example_versions [2, 3, 4, 5, 6, 7])))"
    then obtain name where "x = ''fly-statics/my-app/1/0/'' @ name"
      using many_objects_name by fastforce
    with cross [OF k] show "x \<le> k" by simp
  qed
  with many_objects_sorted [of "''fly-statics/my-app/1/0/''" 1001] s show ?thesis
    unfolding oversized_oldest_version_def s3_bucket.simps map_append sorted_append
    by (intro conjI)
qed

lemma oldest_version_listing:
  "listVersions oversized_oldest_version ''my-app''
     = (Inr [1, 2, 3, 4, 5, 6, 7], oversized_oldest_version)"
proof -
  let ?root = "''fly-statics/my-app/''"
  have f: "failures oversized_oldest_version = []"
    by (simp add: oversized_oldest_version_def)
  have small: "map (listEntry ?root (Some ''/''))
                 (map fst (objects (example_versions [2, 3, 4, 5, 6, 7])))
      = [CommonPrefix ''fly-statics/my-app/2/'', CommonPrefix ''fly-statics/my-app/3/'',
         CommonPrefix ''fly-statics/my-app/4/'', CommonPrefix ''fly-statics/my-app/5/'',
         CommonPrefix ''fly-statics/my-app/6/'', CommonPrefix ''fly-statics/my-app/7/'']"
    by code_simp
  have big: "listEntry ?root (Some ''/'') (''fly-statics/my-app/1/0/'' @ name)
               = CommonPrefix ''fly-statics/my-app/1/''" for name
    by code_simp
  note entries = many_objects_entries
                   [of ?root "Some ''/''" "''fly-statics/my-app/1/0/''", OF big, of 1001]
  have under: "\<forall>obj\<in>set (objects oversized_oldest_version). prefix ?root (fst obj)"
  proof
    fix obj assume "obj \<in> set (objects oversized_oldest_version)"
    then consider "obj \<in> set (many_objects ''fly-statics/my-app/1/0/'' 1001)"
      | "obj \<in> set (objects (example_versions [2, 3, 4, 5, 6, 7]))"
      unfolding oversized_oldest_version_def s3_bucket.simps by auto
    then show "prefix ?root (fst obj)"
    proof cases
      case 1
      then obtain name where "fst obj = ''fly-statics/my-app/1/0/'' @ name"
        using many_objects_name by blast
      then show ?thesis by simp
    next
      case 2
      moreover have "\<forall>obj\<in>set (objects (example_versions [2, 3, 4, 5, 6, 7])).
                       prefix ?root (fst obj)"
        by code_simp
      ultimately show ?thesis by blast
    qed
  qed
  have page: "listPage oversized_oldest_version ?root (Some ''/'')
      = [CommonPrefix ''fly-statics/my-app/1/'',
         CommonPrefix ''fly-statics/my-app/2/'', CommonPrefix ''fly-statics/my-app/3/'',
         CommonPrefix ''fly-statics/my-app/4/'', CommonPrefix ''fly-statics/my-app/5/'',
         CommonPrefix ''fly-statics/my-app/6/'', CommonPrefix ''fly-statics/my-app/7/'']"
    unfolding listPage_sorted [OF oldest_version_sorted under]
    unfolding oversized_oldest_version_def s3_bucket.simps map_append entries small
    unfolding Uniq_append Uniq_replicate_pos [of 1001, simplified] set_replicate_conv_if
    by (simp add: lo_Uniq_def s3MaxKeys_def)
  have "lo_FilterMap parseVersion (commonPrefixes
      [CommonPrefix ''fly-statics/my-app/1/'',
       CommonPrefix ''fly-statics/my-app/2/'', CommonPrefix ''fly-statics/my-app/3/'',
       CommonPrefix ''fly-statics/my-app/4/'', CommonPrefix ''fly-statics/my-app/5/'',
       CommonPrefix ''fly-statics/my-app/6/'', CommonPrefix ''fly-statics/my-app/7/''])
     = [1, 2, 3, 4, 5, 6, 7]"
    by code_simp
  with listVersions_no_failures [OF f, of "''my-app''"] page show ?thesis
    by simp
qed

lemma oldest_version_first_deletion:
  "deleteDirectory ''linux'' oversized_oldest_version (versionDir ''my-app'' 1)
     = (None,
        \<lparr>objects = (''fly-statics/my-app/1/0/'' @ replicate 1001 (CHR ''a''), example_object)
                     # objects (example_versions [2, 3, 4, 5, 6, 7]),
         failures = []\<rparr>)"
proof -
  let ?M = "many_objects ''fly-statics/my-app/1/0/'' 1001"
  let ?post = "objects (example_versions [2, 3, 4, 5, 6, 7])"
  have dp: "directoryPrefix ''linux'' (versionDir ''my-app'' 1) = ''fly-statics/my-app/1/''"
    by code_simp
  have f: "failures oversized_oldest_version = []"
    by (simp add: oversized_oldest_version_def)
  have o: "objects oversized_oldest_version = [] @ ?M @ ?post"
    by (simp add: oversized_oldest_version_def)
  have "\<forall>obj\<in>set ?post. \<not> prefix ''fly-statics/my-app/1/'' (fst obj)"
    by code_simp
  then have out: "\<forall>obj\<in>set [] \<union> set ?post.
      \<not> prefix (directoryPrefix ''linux'' (versionDir ''my-app'' 1)) (fst obj)"
    unfolding dp by simp
  have under: "\<forall>obj\<in>set ?M.
      prefix (directoryPrefix ''linux'' (versionDir ''my-app'' 1)) (fst obj)"
    unfolding dp using many_objects_name by fastforce
  from deleteDirectory_first_page
         [OF f o out under many_objects_sorted many_objects_distinct]
  show ?thesis
    by (simp add: drop_many_objects oversized_oldest_version_def)
qed

lemma oldest_version_other_deletions:
  "deleteVersions ''linux''
     \<lparr>objects = (''fly-statics/my-app/1/0/'' @ replicate 1001 (CHR ''a''), example_object)
                  # objects (example_versions [2, 3, 4, 5, 6, 7]),
      failures = []\<rparr> ''my-app'' [2, 3, 4]
   = (None,
      \<lparr>objects = (''fly-statics/my-app/1/0/'' @ replicate 1001 (CHR ''a''), example_object)
                   # objects (example_versions [5, 6, 7]),
       failures = []\<rparr>)"
  by code_simp

lemma oldest_version_listing_after:
  "listVersions
     \<lparr>objects = (''fly-statics/my-app/1/0/'' @ replicate 1001 (CHR ''a''), example_object)
                  # objects (example_versions [5, 6, 7]),
      failures = []\<rparr> ''my-app''
   = (Inr [1, 5, 6, 7],
      \<lparr>objects = (''fly-statics/my-app/1/0/'' @ replicate 1001 (CHR ''a''), example_object)
                   # objects (example_versions [5, 6, 7]),
       failures = []\<rparr>)"
  by code_simp

text \<open>
  C4. After \<^verbatim>\<open>deleteOldStatics\<close> exactly the three most recent valid versions are left; of
  versions 1 to 7 at current version 7 these are 5, 6 and 7. The versions to delete are
  chosen as claimed (\<open>deleteOldStatics_retention\<close>), but each is deleted by
  \<^verbatim>\<open>deleteDirectory\<close>, which deletes one listing page. Evaluated on versions 1 to 7 at
  current version 7, where version 1 holds 1001 objects: the versions listed are 1 to 7;
  the run returns no error; versions 2, 3 and 4 are gone and one object of version 1 is
  left, so that the versions listed afterwards are 1, 5, 6 and 7.
\<close>

theorem retention_leaves_oversized_version:
  "listVersions oversized_oldest_version ''my-app''
     = (Inr [1, 2, 3, 4, 5, 6, 7], oversized_oldest_version)
   \<and> length (keysUnder (versionDir ''my-app'' 1) oversized_oldest_version) = 1001
   \<and> deleteOldStatics ''linux'' oversized_oldest_version ''my-app'' 7
     = (None,
        \<lparr>objects = (''fly-statics/my-app/1/0/'' @ replicate 1001 (CHR ''a''), example_object)
                     # objects (example_versions [5, 6, 7]),
         failures = []\<rparr>)
   \<and> listVersions
        \<lparr>objects = (''fly-statics/my-app/1/0/'' @ replicate 1001 (CHR ''a''), example_object)
                     # objects (example_versions [5, 6, 7]),
         failures = []\<rparr> ''my-app''
     = (Inr [1, 5, 6, 7],
        \<lparr>objects = (''fly-statics/my-app/1/0/'' @ replicate 1001 (CHR ''a''), example_object)
                     # objects (example_versions [5, 6, 7]),
         failures = []\<rparr>)"
proof -
  have vd: "versionDir ''my-app'' 1 = ''fly-statics/my-app/1/''"
    by code_simp
  have p: "prefix ''fly-statics/my-app/1/'' ''fly-statics/my-app/1/0/''"
    by simp
  have "filter (prefix ''fly-statics/my-app/1/'')
          (map fst (objects (example_versions [2, 3, 4, 5, 6, 7]))) = []"
    by code_simp
  with many_objects_under [OF p, of 1001]
  have len: "length (keysUnder (versionDir ''my-app'' 1) oversized_oldest_version) = 1001"
    unfolding vd keysUnder_def oversized_oldest_version_def by simp
  have old: "oldVersions (retentionCandidates (filter (\<lambda>v. 7 < v) [1, 2, 3, 4, 5, 6, 7])
               [1, 2, 3, 4, 5, 6, 7]) = [1, 2, 3, 4 :: int]"
    by code_simp
  have new: "filter (\<lambda>v. 7 < v) [1, 2, 3, 4, 5, 6, 7 :: int] = []"
    by simp
  have run: "deleteOldStatics ''linux'' oversized_oldest_version ''my-app'' 7
     = (None,
        \<lparr>objects = (''fly-statics/my-app/1/0/'' @ replicate 1001 (CHR ''a''), example_object)
                     # objects (example_versions [5, 6, 7]),
         failures = []\<rparr>)"
    unfolding deleteOldStatics_unfold [OF oldest_version_listing] old
    unfolding new
    using oldest_version_first_deletion oldest_version_other_deletions
    by simp
  from oldest_version_listing len run oldest_version_listing_after show ?thesis
    by (intro conjI)
qed

subsection \<open>A version above the current one with 1001 objects\<close>

lemma newer_version_sorted: "sorted (map fst (objects oversized_newer_version))"
proof -
  let ?M = "many_objects ''fly-statics/my-app/10/0/'' 1001"
  have v1: "map fst (objects (example_versions [1])) = [''fly-statics/my-app/1/0/index.html'']"
    by code_simp
  have v2: "map fst (objects (example_versions [2])) = [''fly-statics/my-app/2/0/index.html'']"
    by code_simp
  have lo: "''fly-statics/my-app/1/0/index.html'' \<le> ''fly-statics/my-app/10/0/'' @ name" for name
    by simp
  have hi: "''fly-statics/my-app/10/0/'' @ name \<le> ''fly-statics/my-app/2/0/index.html''" for name
    by simp
  have ends: "''fly-statics/my-app/1/0/index.html'' \<le> ''fly-statics/my-app/2/0/index.html''"
    by simp
  have names: "\<exists>name. x = ''fly-statics/my-app/10/0/'' @ name" if "x \<in> set (map fst ?M)" for x
    using that many_objects_name by fastforce
  have a: "\<forall>x\<in>set (map fst ?M). ''fly-statics/my-app/1/0/index.html'' \<le> x"
    using names lo by blast
  have b: "\<forall>x\<in>set (map fst ?M). x \<le> ''fly-statics/my-app/2/0/index.html''"
    using names hi by blast
  have "sorted ([''fly-statics/my-app/1/0/index.html''] @ map fst ?M
                  @ [''fly-statics/my-app/2/0/index.html''])"
    unfolding sorted_append
    using many_objects_sorted [of "''fly-statics/my-app/10/0/''" 1001] a b ends
    by simp
  then show ?thesis
    unfolding oversized_newer_version_def s3_bucket.simps map_append v1 v2 .
qed

lemma newer_version_listing:
  "listVersions oversized_newer_version ''my-app'' = (Inr [1, 10, 2], oversized_newer_version)"
proof -
  let ?root = "''fly-statics/my-app/''"
  have f: "failures oversized_newer_version = []"
    by (simp add: oversized_newer_version_def)
  have v1: "map (listEntry ?root (Some ''/'')) (map fst (objects (example_versions [1])))
              = [CommonPrefix ''fly-statics/my-app/1/'']"
    by code_simp
  have v2: "map (listEntry ?root (Some ''/'')) (map fst (objects (example_versions [2])))
              = [CommonPrefix ''fly-statics/my-app/2/'']"
    by code_simp
  have big: "listEntry ?root (Some ''/'') (''fly-statics/my-app/10/0/'' @ name)
               = CommonPrefix ''fly-statics/my-app/10/''" for name
    by code_simp
  note entries = many_objects_entries
                   [of ?root "Some ''/''" "''fly-statics/my-app/10/0/''", OF big, of 1001]
  have under: "\<forall>obj\<in>set (objects oversized_newer_version). prefix ?root (fst obj)"
  proof
    fix obj assume "obj \<in> set (objects oversized_newer_version)"
    then consider "obj \<in> set (many_objects ''fly-statics/my-app/10/0/'' 1001)"
      | "obj \<in> set (objects (example_versions [1])) \<union> set (objects (example_versions [2]))"
      unfolding oversized_newer_version_def s3_bucket.simps by auto
    then show "prefix ?root (fst obj)"
    proof cases
      case 1
      then obtain name where "fst obj = ''fly-statics/my-app/10/0/'' @ name"
        using many_objects_name by blast
      then show ?thesis by simp
    next
      case 2
      moreover have "\<forall>obj\<in>set (objects (example_versions [1])) \<union> set (objects (example_versions [2])).
                       prefix ?root (fst obj)"
        by code_simp
      ultimately show ?thesis by blast
    qed
  qed
  have page: "listPage oversized_newer_version ?root (Some ''/'')
      = [CommonPrefix ''fly-statics/my-app/1/'', CommonPrefix ''fly-statics/my-app/10/'',
         CommonPrefix ''fly-statics/my-app/2/'']"
    unfolding listPage_sorted [OF newer_version_sorted under]
    unfolding oversized_newer_version_def s3_bucket.simps map_append entries v1 v2
    unfolding Uniq_append Uniq_replicate_pos [of 1001, simplified] set_replicate_conv_if
    by (simp add: lo_Uniq_def s3MaxKeys_def)
  have "lo_FilterMap parseVersion (commonPrefixes
      [CommonPrefix ''fly-statics/my-app/1/'', CommonPrefix ''fly-statics/my-app/10/'',
       CommonPrefix ''fly-statics/my-app/2/''])
     = [1, 10, 2]"
    by code_simp
  with listVersions_no_failures [OF f, of "''my-app''"] page show ?thesis
    by simp
qed

lemma newer_version_deletion:
  "deleteDirectory ''linux'' oversized_newer_version (versionDir ''my-app'' 10)
     = (None,
        \<lparr>objects = objects (example_versions [1])
                     @ (''fly-statics/my-app/10/0/'' @ replicate 1001 (CHR ''a''), example_object)
                     # objects (example_versions [2]),
         failures = []\<rparr>)"
proof -
  let ?M = "many_objects ''fly-statics/my-app/10/0/'' 1001"
  let ?pre = "objects (example_versions [1])"
  let ?post = "objects (example_versions [2])"
  have dp: "directoryPrefix ''linux'' (versionDir ''my-app'' 10) = ''fly-statics/my-app/10/''"
    by code_simp
  have f: "failures oversized_newer_version = []"
    by (simp add: oversized_newer_version_def)
  have o: "objects oversized_newer_version = ?pre @ ?M @ ?post"
    by (simp add: oversized_newer_version_def)
  have "\<forall>obj\<in>set ?pre \<union> set ?post. \<not> prefix ''fly-statics/my-app/10/'' (fst obj)"
    by code_simp
  then have out: "\<forall>obj\<in>set ?pre \<union> set ?post.
      \<not> prefix (directoryPrefix ''linux'' (versionDir ''my-app'' 10)) (fst obj)"
    unfolding dp .
  have under: "\<forall>obj\<in>set ?M.
      prefix (directoryPrefix ''linux'' (versionDir ''my-app'' 10)) (fst obj)"
    unfolding dp using many_objects_name by fastforce
  from deleteDirectory_first_page
         [OF f o out under many_objects_sorted many_objects_distinct]
  show ?thesis
    by (simp add: drop_many_objects oversized_newer_version_def)
qed

lemma newer_version_listing_after:
  "listVersions
     \<lparr>objects = objects (example_versions [1])
                  @ (''fly-statics/my-app/10/0/'' @ replicate 1001 (CHR ''a''), example_object)
                  # objects (example_versions [2]),
      failures = []\<rparr> ''my-app''
   = (Inr [1, 10, 2],
      \<lparr>objects = objects (example_versions [1])
                   @ (''fly-statics/my-app/10/0/'' @ replicate 1001 (CHR ''a''), example_object)
                   # objects (example_versions [2]),
       failures = []\<rparr>)"
  by code_simp

text \<open>
  C5. Every listed version above the current one is deleted, whatever the number of
  versions kept; of versions 1, 2 and 10 at current version 3, version 10 is deleted.
  Such versions are deleted first and without regard to the number kept
  (\<open>deleteOldStatics_too_new\<close>), but by \<^verbatim>\<open>deleteDirectory\<close>, which deletes one listing page.
  Evaluated on versions 1, 2 and 10 at current version 3, where version 10 holds 1001
  objects: the versions listed are 1, 10 and 2; the run returns no error; one object of
  version 10 is left, and version 10 is listed afterwards as before.
\<close>

theorem too_new_version_left_when_oversized:
  "listVersions oversized_newer_version ''my-app'' = (Inr [1, 10, 2], oversized_newer_version)
   \<and> length (keysUnder (versionDir ''my-app'' 10) oversized_newer_version) = 1001
   \<and> deleteOldStatics ''linux'' oversized_newer_version ''my-app'' 3
     = (None,
        \<lparr>objects = objects (example_versions [1])
                     @ (''fly-statics/my-app/10/0/'' @ replicate 1001 (CHR ''a''), example_object)
                     # objects (example_versions [2]),
         failures = []\<rparr>)
   \<and> listVersions
        \<lparr>objects = objects (example_versions [1])
                     @ (''fly-statics/my-app/10/0/'' @ replicate 1001 (CHR ''a''), example_object)
                     # objects (example_versions [2]),
         failures = []\<rparr> ''my-app''
     = (Inr [1, 10, 2],
        \<lparr>objects = objects (example_versions [1])
                     @ (''fly-statics/my-app/10/0/'' @ replicate 1001 (CHR ''a''), example_object)
                     # objects (example_versions [2]),
         failures = []\<rparr>)"
proof -
  have vd: "versionDir ''my-app'' 10 = ''fly-statics/my-app/10/''"
    by code_simp
  have p: "prefix ''fly-statics/my-app/10/'' ''fly-statics/my-app/10/0/''"
    by simp
  have "filter (prefix ''fly-statics/my-app/10/'') (map fst (objects (example_versions [1]))) = []"
    and "filter (prefix ''fly-statics/my-app/10/'') (map fst (objects (example_versions [2]))) = []"
    by code_simp+
  with many_objects_under [OF p, of 1001]
  have len: "length (keysUnder (versionDir ''my-app'' 10) oversized_newer_version) = 1001"
    unfolding vd keysUnder_def oversized_newer_version_def by simp
  have new: "filter (\<lambda>v. 3 < v) [1, 10, 2 :: int] = [10]"
    by simp
  have old: "oldVersions (retentionCandidates [10] [1, 10, 2]) = ([] :: int list)"
    by code_simp
  have run: "deleteOldStatics ''linux'' oversized_newer_version ''my-app'' 3
     = (None,
        \<lparr>objects = objects (example_versions [1])
                     @ (''fly-statics/my-app/10/0/'' @ replicate 1001 (CHR ''a''), example_object)
                     # objects (example_versions [2]),
         failures = []\<rparr>)"
    unfolding deleteOldStatics_unfold [OF newer_version_listing] new old
    using newer_version_deletion
    by simp
  from newer_version_listing len run newer_version_listing_after show ?thesis
    by (intro conjI)
qed

subsection \<open>Splitting, joining and cleaning paths\<close>

lemma Split_not_Nil [simp]: "Split s sep \<noteq> []"
  by (induction s) (auto split: list.splits)

lemma Split_append_sep: "Split (a @ sep # b) sep = Split a sep @ Split b sep"
proof (induction a)
  case Nil
  then show ?case by simp
next
  case (Cons c a)
  obtain p ps where "Split a sep = p # ps"
    by (cases "Split a sep") simp_all
  with Cons show ?case
    by (simp split: list.splits)
qed

lemma sep_not_in_Split: "e \<in> set (Split s sep) \<Longrightarrow> sep \<notin> set e"
proof (induction s arbitrary: e)
  case Nil
  then show ?case by simp
next
  case (Cons c s)
  obtain p ps where sp: "Split s sep = p # ps"
    by (cases "Split s sep") simp_all
  show ?case
  proof (cases "c = sep")
    case True
    with Cons show ?thesis by auto
  next
    case False
    with Cons.prems sp have "e = c # p \<or> e \<in> set ps" by simp
    then show ?thesis
    proof
      assume "e = c # p"
      moreover have "sep \<notin> set p" using Cons.IH [of p] sp by simp
      ultimately show ?thesis using False by simp
    next
      assume "e \<in> set ps"
      then show ?thesis using Cons.IH [of e] sp by simp
    qed
  qed
qed

lemma joinSlash_Cons: "es \<noteq> [] \<Longrightarrow> joinSlash (e # es) = e @ CHR ''/'' # joinSlash es"
  by (cases es) simp_all

lemma joinSlash_Split: "joinSlash (Split s (CHR ''/'')) = s"
proof (induction s)
  case Nil
  then show ?case by simp
next
  case (Cons c s)
  obtain p ps where sp: "Split s (CHR ''/'') = p # ps"
    by (cases "Split s (CHR ''/'')") simp_all
  show ?case
  proof (cases "c = CHR ''/''")
    case True
    with Cons show ?thesis by (simp add: joinSlash_Cons)
  next
    case False
    with Cons sp show ?thesis
      by (cases ps) simp_all
  qed
qed

lemma joinSlash_append:
  "xs \<noteq> [] \<Longrightarrow> ys \<noteq> [] \<Longrightarrow> joinSlash (xs @ ys) = joinSlash xs @ CHR ''/'' # joinSlash ys"
proof (induction xs)
  case Nil
  then show ?case by simp
next
  case (Cons x xs)
  show ?case
  proof (cases "xs = []")
    case True
    with Cons.prems show ?thesis by (simp add: joinSlash_Cons)
  next
    case False
    with Cons show ?thesis by (simp add: joinSlash_Cons)
  qed
qed

lemma cleanElems_clean:
  "list_all cleanElem es \<Longrightarrow> cleanElems rooted out es = rev out @ es"
  by (induction es arbitrary: out) (auto simp: cleanElem_def)

lemma cleanElems_skip_empty:
  "cleanElems rooted out ([] # es) = cleanElems rooted out es"
  by simp

lemma cleanRelative_not_Nil: "cleanRelative p \<Longrightarrow> p \<noteq> []"
  by (auto simp: cleanRelative_def cleanElem_def)

lemma cleanRelative_hd: "cleanRelative p \<Longrightarrow> hd p \<noteq> CHR ''/''"
proof -
  assume c: "cleanRelative p"
  obtain e es where sp: "Split p (CHR ''/'') = e # es"
    by (cases "Split p (CHR ''/'')") simp_all
  with c have e: "e \<noteq> []" by (simp add: cleanRelative_def cleanElem_def)
  from sp have "CHR ''/'' \<notin> set e"
    using sep_not_in_Split [of e p "CHR ''/''"] by simp
  with e have "hd e \<noteq> CHR ''/''" by (metis list.set_sel(1))
  moreover have "p = joinSlash (e # es)"
    using joinSlash_Split [of p] sp by simp
  then have "hd p = hd e"
    using e by (cases es) simp_all
  ultimately show ?thesis by simp
qed

lemma cleanRelative_last: "cleanRelative p \<Longrightarrow> last p \<noteq> CHR ''/''"
proof
  assume c: "cleanRelative p" and l: "last p = CHR ''/''"
  from c have "p \<noteq> []" by (rule cleanRelative_not_Nil)
  with l obtain q where "p = q @ [CHR ''/'']"
    by (metis append_butlast_last_id)
  then have "Split p (CHR ''/'') = Split q (CHR ''/'') @ [[]]"
    using Split_append_sep [of q "CHR ''/''" "[]"] by simp
  with c show False
    by (simp add: cleanRelative_def cleanElem_def)
qed

lemma Clean_two_clean:
  assumes "cleanRelative d" and "cleanRelative name"
  shows "Clean (d @ CHR ''/'' # name) = d @ CHR ''/'' # name"
    and "Clean ((d @ ''/'') @ CHR ''/'' # name) = d @ CHR ''/'' # name"
proof -
  let ?sd = "Split d (CHR ''/'')" and ?sn = "Split name (CHR ''/'')"
  from assms have cd: "list_all cleanElem ?sd" and cn: "list_all cleanElem ?sn"
    by (simp_all add: cleanRelative_def)
  have dn: "d \<noteq> []" using assms(1) by (rule cleanRelative_not_Nil)
  have hd1: "hd (d @ CHR ''/'' # name) \<noteq> CHR ''/''"
    and hd2: "hd ((d @ ''/'') @ CHR ''/'' # name) \<noteq> CHR ''/''"
    using cleanRelative_hd [OF assms(1)] dn by simp_all
  have j: "joinSlash (?sd @ ?sn) = d @ CHR ''/'' # name"
    by (simp add: joinSlash_append joinSlash_Split)
  have s1: "Split (d @ CHR ''/'' # name) (CHR ''/'') = ?sd @ ?sn"
    by (rule Split_append_sep)
  have "Split ((d @ ''/'') @ CHR ''/'' # name) (CHR ''/'') = Split (d @ ''/'') (CHR ''/'') @ ?sn"
    by (rule Split_append_sep)
  moreover have "Split (d @ ''/'') (CHR ''/'') = ?sd @ [[]]"
    using Split_append_sep [of d "CHR ''/''" "[]"] by simp
  ultimately have s2: "Split ((d @ ''/'') @ CHR ''/'' # name) (CHR ''/'') = ?sd @ [] # ?sn"
    by simp
  have c1: "cleanElems False [] (?sd @ ?sn) = ?sd @ ?sn"
    using cd cn by (simp add: cleanElems_clean)
  have ce: "cleanElems False out (xs @ ys) = cleanElems False (rev xs @ out) ys"
    if "list_all cleanElem xs" for out xs ys
    using that by (induction xs arbitrary: out) (auto simp: cleanElem_def)
  have c2: "cleanElems False [] (?sd @ [] # ?sn) = ?sd @ ?sn"
    using cd cn by (simp add: ce cleanElems_clean)
  show "Clean (d @ CHR ''/'' # name) = d @ CHR ''/'' # name"
    using hd1 by (simp add: Clean_def s1 c1 j Let_def del: hd_append2)
  show "Clean ((d @ ''/'') @ CHR ''/'' # name) = d @ CHR ''/'' # name"
    using hd2 by (simp only: Clean_def s2 c2 j Let_def) simp
qed

lemma Join_clean:
  assumes "cleanRelative d" and "cleanRelative name" and "dest = d \<or> dest = d @ ''/''"
  shows "Join dest name = d @ CHR ''/'' # name"
proof -
  have "d \<noteq> []" and "name \<noteq> []"
    using assms(1,2) by (auto dest: cleanRelative_not_Nil)
  with assms(3) Clean_two_clean [OF assms(1,2)] show ?thesis
    by (auto simp: Join_def)
qed

lemma directoryPrefix_clean:
  assumes "cleanRelative d" and "dest = d \<or> dest = d @ ''/''"
    and "goos = ''windows'' \<longrightarrow> backslash \<notin> set d"
  shows "directoryPrefix goos dest = d @ ''/''"
proof -
  have dn: "d \<noteq> []" using assms(1) by (rule cleanRelative_not_Nil)
  have nd: "\<not> HasSuffix d ''/''"
    using cleanRelative_last [OF assms(1)] by (simp add: HasSuffix_slash)
  have sd: "HasSuffix (d @ ''/'') ''/''"
    by (simp add: HasSuffix_slash)
  have "backslash \<notin> set ''/''" by (simp add: backslash_def)
  with assms(3) have nb: "goos = ''windows'' \<longrightarrow> backslash \<notin> set (d @ ''/'')"
    by simp
  from assms(2) show ?thesis
  proof
    assume "dest = d"
    with directoryPrefix_no_backslash [OF assms(3)] nd show ?thesis by simp
  next
    assume "dest = d @ ''/''"
    with directoryPrefix_no_backslash [OF nb] sd show ?thesis by simp
  qed
qed

subsection \<open>Uploading\<close>

lemma PutObject_None:
  "PutObject c key body contentType = (None, c') \<Longrightarrow>
     objects c' = filter (\<lambda>obj. fst obj \<noteq> key) (objects c)
                    @ [(key, \<lparr>Body = body, ContentType = contentType\<rparr>)]"
  by (auto simp: PutObject_def split: prod.splits bool.splits dest: request_objects)

lemma uploadFile_None:
  assumes "uploadFile env c dest f = (None, c')"
  shows "objects c' = filter (\<lambda>obj. fst obj \<noteq> objectKey env dest f) (objects c)
                        @ [uploadedObject env dest f]"
proof -
  from assms obtain mimeType where
    m: "mimeTypeOf env f = Inr mimeType" and
    p: "PutObject c (objectKey env dest f) (File_Content f) mimeType = (None, c')"
    by (auto simp: uploadFile_def split: option.splits io_fault.splits sum.splits)
  from PutObject_None [OF p] m show ?thesis
    by (simp add: uploadedObject_def)
qed

lemma uploadAll_None:
  assumes "uploadAll env c dest files = (None, c')"
    and "distinct (map (objectKey env dest) files)"
  shows "set (objects c') =
           {obj \<in> set (objects c). fst obj \<notin> objectKey env dest ` set files}
             \<union> uploadedObject env dest ` set files"
  using assms
proof (induction files arbitrary: c)
  case Nil
  then show ?case by simp
next
  case (Cons f files)
  from Cons.prems(1) obtain c1 where
    u: "uploadFile env c dest f = (None, c1)" and
    r: "uploadAll env c1 dest files = (None, c')"
    by (auto split: prod.splits option.splits)
  from Cons.prems(2) have d: "distinct (map (objectKey env dest) files)"
    and fresh: "objectKey env dest f \<notin> objectKey env dest ` set files"
    by simp_all
  have k: "fst (uploadedObject env dest f) = objectKey env dest f"
    by (simp add: uploadedObject_def)
  have o1: "set (objects c1) =
      {obj \<in> set (objects c). fst obj \<noteq> objectKey env dest f} \<union> {uploadedObject env dest f}"
    unfolding uploadFile_None [OF u] by auto
  show ?case
    unfolding Cons.IH [OF r d] o1 using fresh k by auto
qed

text \<open>
  A run in which no step fails: the deletion, the walk and every upload. Only then is
  the result of \<^verbatim>\<open>uploadDirectory\<close> independent of the scheduling.
\<close>

lemma uploadDirectory_no_step_fails:
  assumes "deleteDirectory (GOOS env) c dest = (None, c1)"
    and "WalkDir env localPath = Inr files"
    and "uploadAll env c1 dest files = (None, c')"
  shows "uploadDirectory env c dest localPath = (None, c')"
  using assms by (simp add: uploadDirectory_def uploadFiles_def)

text \<open>
  When no step fails and the destination holds no more than one listing page, the upload
  replaces the directory: for a destination that is a clean relative path, with or
  without a final slash, and files named as the walk names them, the objects under the
  destination afterwards are those made from the files, and the others are untouched.
\<close>

lemma uploadDirectory_replaces:
  assumes del: "deleteDirectory (GOOS env) c dest = (None, c1)"
    and walk: "WalkDir env localPath = Inr files"
    and put: "uploadAll env c1 dest files = (None, c')"
    and d: "cleanRelative d" and dest: "dest = d \<or> dest = d @ ''/''"
    and names: "list_all (\<lambda>f. cleanRelative (File_Name f)) files"
    and dist: "distinct (map File_Name files)"
    and win: "GOOS env = ''windows'' \<longrightarrow>
                backslash \<notin> set d \<and> list_all (\<lambda>f. backslash \<notin> set (File_Name f)) files"
    and page: "length (keysUnder (d @ ''/'') c) \<le> s3MaxKeys"
  shows "uploadDirectory env c dest localPath = (None, c')"
    and "{obj \<in> set (objects c'). prefix (d @ ''/'') (fst obj)} = uploadedObject env dest ` set files"
    and "{obj \<in> set (objects c'). \<not> prefix (d @ ''/'') (fst obj)}
           = {obj \<in> set (objects c). \<not> prefix (d @ ''/'') (fst obj)}"
    and "\<forall>f\<in>set files. fst (uploadedObject env dest f) = d @ ''/'' @ File_Name f"
proof -
  show "uploadDirectory env c dest localPath = (None, c')"
    by (rule uploadDirectory_no_step_fails [OF del walk put])
  from win have wd: "GOOS env = ''windows'' \<longrightarrow> backslash \<notin> set d" by simp
  have dp: "directoryPrefix (GOOS env) dest = d @ ''/''"
    by (rule directoryPrefix_clean [OF d dest wd])
  from deleteDirectory_all [OF del] page
  have o1: "objects c1 = filter (\<lambda>obj. \<not> prefix (d @ ''/'') (fst obj)) (objects c)"
    unfolding dp keysUnder_def by simp
  have key: "objectKey env dest f = d @ ''/'' @ File_Name f" if "f \<in> set files" for f
  proof -
    from that names have cn: "cleanRelative (File_Name f)"
      by (simp add: list_all_iff)
    have "(if GOOS env = ''windows'' then ReplaceAll (File_Name f) backslash (CHR ''/'')
           else File_Name f) = File_Name f"
      using that win by (auto simp: list_all_iff ReplaceAll_absent)
    then show ?thesis
      using Join_clean [OF d cn dest] by (simp add: objectKey_def)
  qed
  then show k3: "\<forall>f\<in>set files. fst (uploadedObject env dest f) = d @ ''/'' @ File_Name f"
    by (simp add: uploadedObject_def)
  have "map (objectKey env dest) files = map (\<lambda>f. d @ ''/'' @ File_Name f) files"
    using key by simp
  also have "\<dots> = map (\<lambda>n. d @ ''/'' @ n) (map File_Name files)"
    by simp
  finally have dk: "distinct (map (objectKey env dest) files)"
    using dist by (simp add: distinct_map inj_on_def del: map_map)
  note o' = uploadAll_None [OF put dk]
  have under: "prefix (d @ ''/'') (fst obj)" if "obj \<in> uploadedObject env dest ` set files" for obj
    using that k3 by auto
  have keys_under: "prefix (d @ ''/'') k" if "k \<in> objectKey env dest ` set files" for k
    using that key by auto
  show "{obj \<in> set (objects c'). prefix (d @ ''/'') (fst obj)} = uploadedObject env dest ` set files"
    unfolding o' o1 using under by auto
  show "{obj \<in> set (objects c'). \<not> prefix (d @ ''/'') (fst obj)}
           = {obj \<in> set (objects c). \<not> prefix (d @ ''/'') (fst obj)}"
    unfolding o' o1 using under keys_under by auto
qed

lemma example_first_upload:
  "uploadDirectory example_upload_env (example_versions [6]) ''fly-statics/my-app/7/0/'' ''public''
     = (None,
        \<lparr>objects =
           [(''fly-statics/my-app/6/0/index.html'', example_object),
            (''fly-statics/my-app/7/0/css/site.css'',
             \<lparr>Body = ''body {}'', ContentType = ''text/css; charset=utf-8''\<rparr>),
            (''fly-statics/my-app/7/0/index.html'',
             \<lparr>Body = ''<html>1</html>'', ContentType = ''text/html; charset=utf-8''\<rparr>)],
         failures = []\<rparr>)"
  by code_simp

lemma example_second_upload:
  "uploadDirectory example_upload_env
     \<lparr>objects =
        [(''fly-statics/my-app/6/0/index.html'', example_object),
         (''fly-statics/my-app/7/0/css/site.css'',
          \<lparr>Body = ''body {}'', ContentType = ''text/css; charset=utf-8''\<rparr>),
         (''fly-statics/my-app/7/0/index.html'',
          \<lparr>Body = ''<html>1</html>'', ContentType = ''text/html; charset=utf-8''\<rparr>)],
      failures = []\<rparr>
     ''fly-statics/my-app/7/0/'' ''public2''
     = (None,
        \<lparr>objects =
           [(''fly-statics/my-app/6/0/index.html'', example_object),
            (''fly-statics/my-app/7/0/index.html'',
             \<lparr>Body = ''<html>2</html>'', ContentType = ''text/html; charset=utf-8''\<rparr>)],
         failures = []\<rparr>)"
  by code_simp

text \<open>
  With the scheduling of \<open>example_upload_env\<close>, the upload of a directory whose only file
  cannot be opened returns no error and puts nothing.
\<close>

lemma example_error_not_reported:
  "uploadDirectory example_upload_env (example_versions [6]) ''fly-statics/my-app/7/0/'' ''broken''
     = (None, example_versions [6])"
  by code_simp

subsection \<open>Uploading many files\<close>

lemma putFiles_snoc:
  "putFiles env c dest (files @ [f])
     = (putFiles env c dest files)
         \<lparr>objects := filter (\<lambda>obj. fst obj \<noteq> objectKey env dest f)
                        (objects (putFiles env c dest files))
                      @ [uploadedObject env dest f]\<rparr>"
  by (simp add: putFiles_def)

lemma putFiles_Cons:
  "putFiles env c dest (f # files)
     = putFiles env
         (c\<lparr>objects := filter (\<lambda>obj. fst obj \<noteq> objectKey env dest f) (objects c)
                          @ [uploadedObject env dest f]\<rparr>) dest files"
  by (simp add: putFiles_def)

lemma uploadAll_putFiles:
  assumes "failures c = []"
    and "\<forall>f\<in>set files. File_Fault f = None \<and> (\<exists>mimeType. mimeTypeOf env f = Inr mimeType)"
  shows "uploadAll env c dest files = (None, putFiles env c dest files)"
  using assms
proof (induction files arbitrary: c)
  case Nil
  then show ?case by (simp add: putFiles_def)
next
  case (Cons f files)
  from Cons.prems(2) obtain mimeType where
    ff: "File_Fault f = None" and m: "mimeTypeOf env f = Inr mimeType"
    by auto
  let ?c1 = "c\<lparr>objects := filter (\<lambda>obj. fst obj \<noteq> objectKey env dest f) (objects c)
                            @ [uploadedObject env dest f]\<rparr>"
  have u: "uploadFile env c dest f = (None, ?c1)"
    using ff m Cons.prems(1)
    by (simp add: uploadFile_def PutObject_def request_no_failures uploadedObject_def)
  have f1: "failures ?c1 = []"
    using Cons.prems(1) by simp
  from Cons.prems(2) have rest:
    "\<forall>f\<in>set files. File_Fault f = None \<and> (\<exists>mimeType. mimeTypeOf env f = Inr mimeType)"
    by simp
  from Cons.IH [OF f1 rest] u show ?case
    by (simp add: putFiles_Cons)
qed

lemma putFiles_fresh:
  assumes "distinct (map (objectKey env dest) files)"
    and "\<forall>f\<in>set files. objectKey env dest f \<notin> fst ` set (objects c)"
  shows "putFiles env c dest files = c\<lparr>objects := objects c @ map (uploadedObject env dest) files\<rparr>"
  using assms
proof (induction files rule: rev_induct)
  case Nil
  then show ?case by (simp add: putFiles_def)
next
  case (snoc f files)
  from snoc.prems have d: "distinct (map (objectKey env dest) files)"
    and fresh: "\<forall>g\<in>set files. objectKey env dest g \<notin> fst ` set (objects c)"
    and new: "objectKey env dest f \<notin> objectKey env dest ` set files"
    and newc: "objectKey env dest f \<notin> fst ` set (objects c)"
    by auto
  have k: "fst (uploadedObject env dest g) = objectKey env dest g" for g
    by (simp add: uploadedObject_def)
  have "filter (\<lambda>obj. fst obj \<noteq> objectKey env dest f)
          (objects c @ map (uploadedObject env dest) files)
        = objects c @ map (uploadedObject env dest) files"
  proof (rule filter_True, rule ballI)
    fix obj assume "obj \<in> set (objects c @ map (uploadedObject env dest) files)"
    then consider "obj \<in> set (objects c)" | g where "g \<in> set files" "obj = uploadedObject env dest g"
      by auto
    then show "fst obj \<noteq> objectKey env dest f"
    proof cases
      case 1
      with newc show ?thesis by force
    next
      case 2
      then have "fst obj \<in> objectKey env dest ` set files"
        by (simp add: k)
      with new show ?thesis by metis
    qed
  qed
  with snoc.IH [OF d fresh] show ?case
    by (simp add: putFiles_snoc)
qed

lemma Split_no_sep: "sep \<notin> set s \<Longrightarrow> Split s sep = [s]"
  by (induction s) auto

lemma Ext_no_dot: "CHR ''.'' \<notin> set p \<Longrightarrow> Ext goos p = []"
proof -
  assume "CHR ''.'' \<notin> set p"
  then have "CHR ''.'' \<notin> set (takeWhile (\<lambda>c. \<not> isPathSeparator goos c) (rev p))"
    by (auto dest: set_takeWhileD)
  then show ?thesis
    by (simp add: Ext_def)
qed

lemma assets_name_clean: "cleanRelative (replicate (Suc i) (CHR ''a''))"
proof -
  have "CHR ''/'' \<notin> set (replicate (Suc i) (CHR ''a''))"
    by simp
  from Split_no_sep [OF this] show ?thesis
    by (simp add: cleanRelative_def cleanElem_def)
qed

lemma assets_file:
  fixes i :: nat
  defines "f \<equiv> \<lparr>File_Name = replicate (Suc i) (CHR ''a''), File_Content = ''<html></html>'',
                   File_Fault = None\<rparr>"
  shows "mimeTypeOf example_upload_env f = Inr ''text/html; charset=utf-8''"
    and "uploadedObject example_upload_env ''fly-statics/my-app/7/0/'' f
           = (''fly-statics/my-app/7/0/'' @ replicate (Suc i) (CHR ''a''), example_object)"
proof -
  have e: "Ext ''linux'' (CHR ''a'' # replicate i (CHR ''a'')) = []"
    by (rule Ext_no_dot) simp
  show m: "mimeTypeOf example_upload_env f = Inr ''text/html; charset=utf-8''"
    unfolding f_def by (simp add: mimeTypeOf_def example_upload_env_def e first512_def)
  have d: "cleanRelative ''fly-statics/my-app/7/0''"
    by code_simp
  have "Join ''fly-statics/my-app/7/0/'' (replicate (Suc i) (CHR ''a''))
          = ''fly-statics/my-app/7/0'' @ CHR ''/'' # replicate (Suc i) (CHR ''a'')"
    by (rule Join_clean [OF d assets_name_clean]) simp
  then have k: "objectKey example_upload_env ''fly-statics/my-app/7/0/'' f
                  = ''fly-statics/my-app/7/0/'' @ replicate (Suc i) (CHR ''a'')"
    unfolding f_def by (simp add: objectKey_def example_upload_env_def)
  show "uploadedObject example_upload_env ''fly-statics/my-app/7/0/'' f
          = (''fly-statics/my-app/7/0/'' @ replicate (Suc i) (CHR ''a''), example_object)"
    unfolding uploadedObject_def k m by (simp add: f_def example_object_def)
qed

lemma assets_objects:
  "map (uploadedObject example_upload_env ''fly-statics/my-app/7/0/'') assets_files
     = many_objects ''fly-statics/my-app/7/0/'' 1001"
  unfolding assets_files_def many_objects_def map_map comp_def assets_file(2) ..

lemma assets_upload:
  "uploadAll example_upload_env (example_versions []) ''fly-statics/my-app/7/0/'' assets_files
     = (None, oversized_release)"
proof -
  let ?env = example_upload_env and ?dest = "''fly-statics/my-app/7/0/''"
  have f: "failures (example_versions []) = []" and o: "objects (example_versions []) = []"
    by (simp_all add: example_versions_def)
  have ok: "\<forall>f\<in>set assets_files.
              File_Fault f = None \<and> (\<exists>mimeType. mimeTypeOf ?env f = Inr mimeType)"
    using assets_file(1) by (auto simp: assets_files_def)
  have "map (objectKey ?env ?dest) assets_files
          = map fst (map (uploadedObject ?env ?dest) assets_files)"
    by (simp add: uploadedObject_def comp_def)
  then have d: "distinct (map (objectKey ?env ?dest) assets_files)"
    unfolding assets_objects by (simp only: many_objects_distinct)
  have fresh: "\<forall>f\<in>set assets_files. objectKey ?env ?dest f \<notin> fst ` set (objects (example_versions []))"
    unfolding o by simp
  have "putFiles ?env (example_versions []) ?dest assets_files = oversized_release"
    unfolding putFiles_fresh [OF d fresh] assets_objects
    by (simp add: example_versions_def oversized_release_def)
  with uploadAll_putFiles [OF f ok, of ?dest] show ?thesis
    by simp
qed

subsection \<open>A second upload over a directory of 1001 objects\<close>

lemma oversized_release_cleared:
  "deleteDirectory ''linux'' oversized_release ''fly-statics/my-app/7/0/''
     = (None,
        \<lparr>objects = [(''fly-statics/my-app/7/0/'' @ replicate 1001 (CHR ''a''), example_object)],
         failures = []\<rparr>)"
proof -
  let ?M = "many_objects ''fly-statics/my-app/7/0/'' 1001"
  have dp: "directoryPrefix ''linux'' ''fly-statics/my-app/7/0/'' = ''fly-statics/my-app/7/0/''"
    by code_simp
  have f: "failures oversized_release = []"
    by (simp add: oversized_release_def)
  have o: "objects oversized_release = [] @ ?M @ []"
    by (simp add: oversized_release_def)
  have under: "\<forall>obj\<in>set ?M.
      prefix (directoryPrefix ''linux'' ''fly-statics/my-app/7/0/'') (fst obj)"
    unfolding dp using many_objects_name by fastforce
  from deleteDirectory_first_page
         [OF f o _ under many_objects_sorted many_objects_distinct]
  show ?thesis
    by (simp add: drop_many_objects oversized_release_def)
qed

lemma second_upload_puts:
  "uploadAll example_upload_env
     \<lparr>objects = [(''fly-statics/my-app/7/0/'' @ replicate 1001 (CHR ''a''), example_object)],
      failures = []\<rparr>
     ''fly-statics/my-app/7/0/''
     [\<lparr>File_Name = ''index.html'', File_Content = ''<html>2</html>'', File_Fault = None\<rparr>]
   = (None,
      \<lparr>objects = [(''fly-statics/my-app/7/0/'' @ replicate 1001 (CHR ''a''), example_object),
                  (''fly-statics/my-app/7/0/index.html'',
                   \<lparr>Body = ''<html>2</html>'', ContentType = ''text/html; charset=utf-8''\<rparr>)],
       failures = []\<rparr>)"
  by code_simp

text \<open>
  C7. \<^verbatim>\<open>uploadDirectory\<close> deletes every object under the destination before it uploads,
  so that uploading a directory and then another to the same destination leaves exactly
  the objects of the second. The code clears the destination by \<^verbatim>\<open>deleteDirectory\<close>,
  which deletes one listing page. Evaluated on the first statics directory of release 7,
  no step failing: uploading "assets", of 1001 files, into an empty bucket leaves their
  1001 objects; uploading "public2", of one page, to the same destination then returns
  no error and leaves that page and, with it, the object of the last file of "assets".
\<close>

theorem upload_leaves_old_objects:
  "WalkDir example_upload_env ''assets'' = Inr assets_files
   \<and> length assets_files = 1001
   \<and> WalkDir example_upload_env ''public2''
       = Inr [\<lparr>File_Name = ''index.html'', File_Content = ''<html>2</html>'', File_Fault = None\<rparr>]
   \<and> uploadDirectory example_upload_env (example_versions []) ''fly-statics/my-app/7/0/'' ''assets''
       = (None, oversized_release)
   \<and> uploadDirectory example_upload_env oversized_release ''fly-statics/my-app/7/0/'' ''public2''
       = (None,
          \<lparr>objects = [(''fly-statics/my-app/7/0/'' @ replicate 1001 (CHR ''a''), example_object),
                      (''fly-statics/my-app/7/0/index.html'',
                       \<lparr>Body = ''<html>2</html>'', ContentType = ''text/html; charset=utf-8''\<rparr>)],
           failures = []\<rparr>)"
proof -
  have g: "GOOS example_upload_env = ''linux''"
    by (simp add: example_upload_env_def)
  have w1: "WalkDir example_upload_env ''assets'' = Inr assets_files"
    by (simp add: example_upload_env_def)
  have w2: "WalkDir example_upload_env ''public2''
       = Inr [\<lparr>File_Name = ''index.html'', File_Content = ''<html>2</html>'', File_Fault = None\<rparr>]"
    by (simp add: example_upload_env_def)
  have len: "length assets_files = 1001"
    by (simp add: assets_files_def)
  have e: "deleteDirectory (GOOS example_upload_env) (example_versions []) ''fly-statics/my-app/7/0/''
             = (None, example_versions [])"
    unfolding g by code_simp
  note first = uploadDirectory_no_step_fails [OF e w1 assets_upload]
  note second = uploadDirectory_no_step_fails
                  [OF oversized_release_cleared [folded g] w2 second_upload_puts]
  from w1 len w2 first second show ?thesis
    by (intro conjI)
qed

end
